theory Spec2Isabelle
  imports Complex_Main
begin

section \<open>The SQP method of CasADi (casadi/solvers/sqpmethod.cpp)\<close>

text \<open>
  A shallow embedding of \<^verbatim>\<open>Sqpmethod\<close>: the iteration engine \<^verbatim>\<open>evalD\<close>, the
  Gershgorin regularisation, the BFGS update built by \<^verbatim>\<open>init\<close> and the primal
  infeasibility measure.

  Numbers. The type \<open>double\<close> below is the C++ \<^verbatim>\<open>double\<close>: finite values, the two
  infinities and NaN, with an arithmetic that rounds every finite result to 53
  significant bits (to the nearest, ties to even) and overflows to an infinity. The
  Hessian \<^verbatim>\<open>Bk_\<close>, the regularisation and the BFGS update are over \<open>double\<close>; the primal
  infeasibility measure is defined once, for \<open>double\<close> and for \<open>real\<close>. The other
  quantities of the iteration (points, multipliers, gradients, merit values, step
  sizes) are over \<open>real\<close>: finite values with exact arithmetic. The \<^verbatim>\<open>int\<close> counters
  are \<open>int\<close> without bounds: \<^verbatim>\<open>iter\<close> never passes \<^verbatim>\<open>max_iter_\<close>, and an overflow of
  \<^verbatim>\<open>ls_iter\<close> would take more than \<open>2\<^sup>3\<^sup>1\<close> trials of one line search.
\<close>

subsection \<open>Doubles\<close>

datatype double = Finite real | PInf | NInf | NaN

text \<open>Rounding to the nearest integer, ties to the even one.\<close>

definition round_even :: "real \<Rightarrow> int" where
  "round_even y = (let f = \<lfloor>y\<rfloor> in
     if y - of_int f < 1 / 2 then f
     else if y - of_int f > 1 / 2 then f + 1
     else if even f then f else f + 1)"

text \<open>The binary exponent of a positive real: the \<open>k\<close> with \<open>2\<^sup>k \<le> a < 2\<^sup>k\<^sup>+\<^sup>1\<close>, found by
  halving or doubling; and the powers of two with an integer exponent.\<close>

function expo :: "real \<Rightarrow> int" where
  "expo a = (if a \<le> 0 then 0
             else if 2 \<le> a then expo (a / 2) + 1
             else if a < 1 then expo (2 * a) - 1
             else 0)"
  by pat_completeness auto
termination
proof (relation "measure (\<lambda>a. nat \<bar>\<lfloor>log 2 a\<rfloor>\<bar>)")
  show "wf (measure (\<lambda>a. nat \<bar>\<lfloor>log 2 a\<rfloor>\<bar>))" by simp
next
  fix a :: real assume a: "\<not> a \<le> 0" "2 \<le> a"
  have "log 2 (a / 2) = log 2 a - 1" using a by (simp add: log_divide)
  moreover have "1 \<le> log 2 a" using a by (simp add: le_log_iff)
  then have "1 \<le> \<lfloor>log 2 a\<rfloor>" by linarith
  ultimately show "(a / 2, a) \<in> measure (\<lambda>a. nat \<bar>\<lfloor>log 2 a\<rfloor>\<bar>)"
    by simp
next
  fix a :: real assume a: "\<not> a \<le> 0" "\<not> 2 \<le> a" "a < 1"
  have "log 2 (2 * a) = log 2 a + 1" using a by (simp add: log_mult)
  moreover have "log 2 a < 0" using a by simp
  then have "\<lfloor>log 2 a\<rfloor> \<le> - 1" by linarith
  ultimately show "(2 * a, a) \<in> measure (\<lambda>a. nat \<bar>\<lfloor>log 2 a\<rfloor>\<bar>)"
    by simp
qed

declare expo.simps [simp del]

definition pow2 :: "int \<Rightarrow> real" where
  "pow2 e = (if 0 \<le> e then 2 ^ nat e else 1 / 2 ^ nat (- e))"

text \<open>Rounding of a real to 53 significant bits: with \<open>2\<^sup>k \<le> |a| < 2\<^sup>k\<^sup>+\<^sup>1\<close> the result
  is the nearest multiple of \<open>2\<^sup>k\<^sup>-\<^sup>5\<^sup>2\<close>. The exponent has no lower bound here: the
  subnormal numbers, which round more coarsely, are left out (a sum or difference of two
  doubles is not affected).\<close>

definition rnd :: "real \<Rightarrow> real" where
  "rnd a = (if a = 0 then 0
            else (let e = expo \<bar>a\<bar> - 52
                  in of_int (round_even (a / pow2 e)) * pow2 e))"

text \<open>The double that an exact result becomes: rounded, and an infinity when the
  rounded value is outside the range of the finite doubles. A literal of the source
  that is not a double (\<^verbatim>\<open>0.2\<close>, \<^verbatim>\<open>0.8\<close>) is \<open>dbl\<close> of its value.\<close>

definition dbl :: "real \<Rightarrow> double" where
  "dbl r = (let v = rnd r in
     if v \<ge> 2 ^ 1024 then PInf else if v \<le> - (2 ^ 1024) then NInf else Finite v)"

text \<open>The unit roundoff of this arithmetic.\<close>

definition unit_roundoff :: real where
  "unit_roundoff = 1 / 2 ^ 53"

text \<open>The arithmetic of IEEE 754 on these values, without a sign of zero (a finite
  nonzero number divided by zero is the infinity of its sign). \<open>a < b\<close> and \<open>a \<le> b\<close>
  are the comparisons of C++, false whenever an operand is NaN.\<close>

instantiation double :: "{zero, one, plus, minus, uminus, times, inverse, abs, ord}"
begin

definition zero_double :: double where
  "zero_double = Finite 0"

definition one_double :: double where
  "one_double = Finite 1"

fun uminus_double :: "double \<Rightarrow> double" where
  "uminus_double (Finite a) = Finite (- a)"
| "uminus_double PInf = NInf"
| "uminus_double NInf = PInf"
| "uminus_double NaN = NaN"

fun abs_double :: "double \<Rightarrow> double" where
  "abs_double (Finite a) = Finite \<bar>a\<bar>"
| "abs_double PInf = PInf"
| "abs_double NInf = PInf"
| "abs_double NaN = NaN"

fun plus_double :: "double \<Rightarrow> double \<Rightarrow> double" where
  "plus_double (Finite a) (Finite b) = dbl (a + b)"
| "plus_double NaN b = NaN"
| "plus_double a NaN = NaN"
| "plus_double PInf NInf = NaN"
| "plus_double NInf PInf = NaN"
| "plus_double PInf b = PInf"
| "plus_double NInf b = NInf"
| "plus_double a PInf = PInf"
| "plus_double a NInf = NInf"

definition minus_double :: "double \<Rightarrow> double \<Rightarrow> double" where
  "minus_double a b = a + (- b)"

fun times_double :: "double \<Rightarrow> double \<Rightarrow> double" where
  "times_double (Finite a) (Finite b) = dbl (a * b)"
| "times_double NaN b = NaN"
| "times_double a NaN = NaN"
| "times_double (Finite a) PInf = (if a = 0 then NaN else if 0 < a then PInf else NInf)"
| "times_double (Finite a) NInf = (if a = 0 then NaN else if 0 < a then NInf else PInf)"
| "times_double PInf (Finite b) = (if b = 0 then NaN else if 0 < b then PInf else NInf)"
| "times_double NInf (Finite b) = (if b = 0 then NaN else if 0 < b then NInf else PInf)"
| "times_double PInf PInf = PInf"
| "times_double PInf NInf = NInf"
| "times_double NInf PInf = NInf"
| "times_double NInf NInf = PInf"

fun divide_double :: "double \<Rightarrow> double \<Rightarrow> double" where
  "divide_double (Finite a) (Finite b) =
     (if b = 0 then (if a = 0 then NaN else if 0 < a then PInf else NInf) else dbl (a / b))"
| "divide_double NaN b = NaN"
| "divide_double a NaN = NaN"
| "divide_double (Finite a) PInf = Finite 0"
| "divide_double (Finite a) NInf = Finite 0"
| "divide_double PInf (Finite b) = (if 0 \<le> b then PInf else NInf)"
| "divide_double NInf (Finite b) = (if 0 \<le> b then NInf else PInf)"
| "divide_double PInf PInf = NaN"
| "divide_double PInf NInf = NaN"
| "divide_double NInf PInf = NaN"
| "divide_double NInf NInf = NaN"

definition inverse_double :: "double \<Rightarrow> double" where
  "inverse_double a = divide (Finite 1) a"

fun less_double :: "double \<Rightarrow> double \<Rightarrow> bool" where
  "less_double (Finite a) (Finite b) = (a < b)"
| "less_double NaN b = False"
| "less_double a NaN = False"
| "less_double a NInf = False"
| "less_double PInf b = False"
| "less_double NInf b = True"
| "less_double a PInf = True"

definition less_eq_double :: "double \<Rightarrow> double \<Rightarrow> bool" where
  "less_eq_double a b \<longleftrightarrow> a < b \<or> (a = b \<and> a \<noteq> NaN)"

instance ..

end

text \<open>\<^verbatim>\<open>fmin\<close> of the C library: a NaN operand is ignored.\<close>

definition fmin :: "double \<Rightarrow> double \<Rightarrow> double" where
  "fmin a b = (if a = NaN then b else if b = NaN then a else if b < a then b else a)"

text \<open>The real value of a finite double.\<close>

fun val :: "double \<Rightarrow> real" where
  "val (Finite a) = a"
| "val PInf = 0"
| "val NInf = 0"
| "val NaN = 0"

fun is_finite :: "double \<Rightarrow> bool" where
  "is_finite (Finite a) = True"
| "is_finite PInf = False"
| "is_finite NInf = False"
| "is_finite NaN = False"

text \<open>\<^verbatim>\<open>std::max(a, b)\<close> is \<^verbatim>\<open>(a < b) ? b : a\<close>: on doubles a NaN in the second place
  is dropped.\<close>

definition std_max :: "'a::ord \<Rightarrow> 'a \<Rightarrow> 'a" where
  "std_max a b = (if a < b then b else a)"

subsection \<open>Vectors\<close>

type_synonym vec = "real list"

text \<open>
  Modelled from the spec: \<^verbatim>\<open>norm_inf\<close> (casadi/core/std_vector_tools.hpp) is not part
  of the sources at hand; the spec calls it the infinity norm of a vector.
\<close>

definition norm_inf :: "vec \<Rightarrow> real" where
  "norm_inf v = fold (\<lambda>e r. max r \<bar>e\<bar>) v 0"

text \<open>
  Modelled from the spec: \<^verbatim>\<open>inner_prod\<close> (casadi/core) is not part of the sources at
  hand; the spec writes it \<open>\<langle>a, b\<rangle>\<close>, the sum of the products of the entries, which is
  accumulated from the first entry on.
\<close>

definition inner_prod :: "'a::{zero, plus, times} list \<Rightarrow> 'a list \<Rightarrow> 'a" where
  "inner_prod a b = fold (\<lambda>(p, q) r. r + p * q) (zip a b) 0"

text \<open>\<^verbatim>\<open>transform(a.begin(), a.end(), b.begin(), out, plus<double>())\<close> and its
  \<^verbatim>\<open>minus\<close> sibling, on vectors of one length.\<close>

definition vplus :: "'a::plus list \<Rightarrow> 'a list \<Rightarrow> 'a list" where
  "vplus a b = map2 (+) a b"

definition vminus :: "'a::minus list \<Rightarrow> 'a list \<Rightarrow> 'a list" where
  "vminus a b = map2 (-) a b"

subsection \<open>Primal infeasibility (\<^verbatim>\<open>Sqpmethod::primalInfeasibility\<close>)\<close>

text \<open>
  Two loops over \<^verbatim>\<open>j\<close>, each taking \<^verbatim>\<open>std::max\<close> twice, starting from
  \<^verbatim>\<open>pr_inf = 0\<close>. The bound vectors are read at the indices of \<^verbatim>\<open>x\<close> and \<^verbatim>\<open>g\<close>; the
  source sizes all of them to \<^verbatim>\<open>nx\<close> and \<^verbatim>\<open>ng\<close>. The definition is read over \<open>double\<close>
  (with NaN, infinite bounds and rounded differences) and, inside the iteration, over
  \<open>real\<close>.
\<close>

definition primalInfeasibility ::
  "'a::{zero, minus, ord} list \<Rightarrow> 'a list \<Rightarrow> 'a list \<Rightarrow> 'a list \<Rightarrow> 'a list \<Rightarrow> 'a list \<Rightarrow> 'a" where
  "primalInfeasibility xv lbx ubx gv lbg ubg =
     (let pr_inf = fold (\<lambda>j pr_inf. std_max (std_max pr_inf (lbx ! j - xv ! j)) (xv ! j - ubx ! j))
                     [0..<length xv] 0
      in fold (\<lambda>j pr_inf. std_max (std_max pr_inf (lbg ! j - gv ! j)) (gv ! j - ubg ! j))
           [0..<length gv] pr_inf)"

text \<open>The differences that the formula of the spec (section 4.1, step 1) takes the
  maximum of, and what it is to be the maximum of zero and a list of doubles: not below
  zero, zero or one of the values, and below none of them (a NaN is below nothing and
  above nothing).\<close>

definition violations :: "double list \<Rightarrow> double list \<Rightarrow> double list \<Rightarrow> double list
    \<Rightarrow> double list \<Rightarrow> double list \<Rightarrow> double list" where
  "violations xv lbx ubx gv lbg ubg =
     map (\<lambda>j. lbx ! j - xv ! j) [0..<length xv] @ map (\<lambda>j. xv ! j - ubx ! j) [0..<length xv] @
     map (\<lambda>j. lbg ! j - gv ! j) [0..<length gv] @ map (\<lambda>j. gv ! j - ubg ! j) [0..<length gv]"

definition is_max0 :: "double \<Rightarrow> double list \<Rightarrow> bool" where
  "is_max0 r ds \<longleftrightarrow> 0 \<le> r \<and> (r = 0 \<or> r \<in> set ds) \<and> list_all (\<lambda>d. \<not> r < d) ds"

text \<open>Every bound and every constraint holds, in the comparisons of doubles.\<close>

definition bounds_hold :: "double list \<Rightarrow> double list \<Rightarrow> double list \<Rightarrow> double list
    \<Rightarrow> double list \<Rightarrow> double list \<Rightarrow> bool" where
  "bounds_hold xv lbx ubx gv lbg ubg \<longleftrightarrow>
     list_all (\<lambda>j. lbx ! j \<le> xv ! j \<and> xv ! j \<le> ubx ! j) [0..<length xv] \<and>
     list_all (\<lambda>j. lbg ! j \<le> gv ! j \<and> gv ! j \<le> ubg ! j) [0..<length gv]"

subsection \<open>Sparse matrices (\<^verbatim>\<open>Matrix<double>\<close>, compressed column storage)\<close>

text \<open>
  The source reads a matrix through \<^verbatim>\<open>colind()\<close>, \<^verbatim>\<open>row()\<close>, \<^verbatim>\<open>data()\<close> and
  \<^verbatim>\<open>size2()\<close>: the nonzeros of column \<open>cc\<close> are the positions
  \<open>colind ! cc ..< colind ! (cc + 1)\<close> of \<open>data\<close>, and \<open>row\<close> gives the row of each. The
  Hessian is a \<open>dmatrix\<close>, with entries of type \<open>double\<close>; the Jacobian of the
  constraints is a \<open>real matrix\<close>.
\<close>

record 'a matrix =
  size1 :: nat
  size2 :: nat
  colind :: "nat list"
  row :: "nat list"
  data :: "'a list"

type_synonym dmatrix = "double matrix"

text \<open>The positions of the stored entries of column \<open>cc\<close>: the range of the inner
  loops \<^verbatim>\<open>for (int el=colind[cc]; el<colind[cc+1]; ++el)\<close>.\<close>

definition col_els :: "'a matrix \<Rightarrow> nat \<Rightarrow> nat list" where
  "col_els H cc = [colind H ! cc ..< colind H ! (cc + 1)]"

text \<open>\<^verbatim>\<open>Sqpmethod::getRegularization\<close>. The inner loop computes \<^verbatim>\<open>mineig\<close> for a
  column: the diagonal entry minus the absolute values of the others, each addition
  and subtraction rounded. The outer loop takes \<^verbatim>\<open>fmin\<close> with the running value, which
  starts at 0; the result is negated.\<close>

definition mineig :: "dmatrix \<Rightarrow> nat \<Rightarrow> double" where
  "mineig H cc =
     fold (\<lambda>el mineig. if row H ! el = cc then mineig + data H ! el
                         else mineig - \<bar>data H ! el\<bar>)
       (col_els H cc) 0"

definition getRegularization :: "dmatrix \<Rightarrow> double" where
  "getRegularization H =
     - fold (\<lambda>cc reg_param. fmin reg_param (mineig H cc)) [0..<size2 H] 0"

text \<open>\<^verbatim>\<open>Sqpmethod::regularize\<close>: \<^verbatim>\<open>data[el] += reg\<close> at every stored position of the
  diagonal, a rounded addition.\<close>

definition regularize :: "dmatrix \<Rightarrow> double \<Rightarrow> dmatrix" where
  "regularize H r =
     H\<lparr>data := fold (\<lambda>cc d. fold (\<lambda>el d. if row H ! el = cc then d[el := d ! el + r] else d)
                                (col_els H cc) d)
                [0..<size2 H] (data H)\<rparr>"

text \<open>The value of the matrix at row \<open>i\<close>, column \<open>j\<close>: the stored entry of column
  \<open>j\<close> whose row is \<open>i\<close> (the first one; there is at most one in a well-formed matrix),
  zero when there is none.\<close>

definition entry :: "'a::zero matrix \<Rightarrow> nat \<Rightarrow> nat \<Rightarrow> 'a" where
  "entry H i j =
     (case filter (\<lambda>el. row H ! el = i) (col_els H j) of [] \<Rightarrow> 0 | el # els \<Rightarrow> data H ! el)"

text \<open>A well-formed pattern: \<open>colind\<close> has \<open>size2 + 1\<close> entries, starts at 0, does
  not decrease and ends at the number of nonzeros; within a column the rows are
  strictly increasing and inside the matrix.\<close>

definition ccs_wf :: "'a matrix \<Rightarrow> bool" where
  "ccs_wf H \<longleftrightarrow>
     length (colind H) = size2 H + 1 \<and> colind H ! 0 = 0 \<and>
     colind H ! size2 H = length (row H) \<and> length (data H) = length (row H) \<and>
     list_all (\<lambda>cc. colind H ! cc \<le> colind H ! (cc + 1)) [0..<size2 H] \<and>
     list_all (\<lambda>cc. sorted_wrt (<) (map (\<lambda>el. row H ! el) (col_els H cc))) [0..<size2 H] \<and>
     list_all (\<lambda>r. r < size1 H) (row H)"

text \<open>The pattern holds every diagonal position: \<^verbatim>\<open>init\<close> adds
  \<^verbatim>\<open>Sparsity::diag(nx_)\<close> to the pattern of the Hessian.\<close>

definition has_diag :: "'a matrix \<Rightarrow> bool" where
  "has_diag H \<longleftrightarrow>
     list_all (\<lambda>cc. cc \<in> set (map (\<lambda>el. row H ! el) (col_els H cc))) [0..<size2 H]"

definition symmetric :: "dmatrix \<Rightarrow> bool" where
  "symmetric H \<longleftrightarrow>
     size1 H = size2 H \<and>
     list_all (\<lambda>i. list_all (\<lambda>j. entry H i j = entry H j i) [0..<size2 H]) [0..<size2 H]"

text \<open>Every stored value is finite.\<close>

definition finite_matrix :: "dmatrix \<Rightarrow> bool" where
  "finite_matrix H \<longleftrightarrow> list_all is_finite (data H)"

text \<open>The Gershgorin row bound of the spec (section 4.5):
  \<open>row_bound_i = H[i,i] - \<Sum>_{j \<noteq> i} |H[i,j]|\<close>, the exact value for the stored
  doubles; and the sum of the absolute values of a row.\<close>

definition row_bound :: "dmatrix \<Rightarrow> nat \<Rightarrow> real" where
  "row_bound H i = val (entry H i i) - (\<Sum>j \<in> {..<size2 H} - {i}. \<bar>val (entry H i j)\<bar>)"

definition abs_row_sum :: "dmatrix \<Rightarrow> nat \<Rightarrow> real" where
  "abs_row_sum H i = (\<Sum>j \<in> {..<size2 H}. \<bar>val (entry H i j)\<bar>)"

text \<open>What rounding can take from the row bound of row \<open>i\<close> after the shift: the
  error of the \<open>k\<close> rounded additions that give \<^verbatim>\<open>mineig\<close> for a column of \<open>k\<close> stored
  entries, at most \<open>((1 + u)\<^sup>k - 1) \<cdot> \<Sum>\<^sub>j |H[i,j]|\<close>, and the error of the rounded addition
  \<^verbatim>\<open>data[el] += reg\<close>, at most \<open>u \<cdot> |H[i,i] + reg|\<close>, for the unit roundoff \<open>u\<close>.\<close>

definition rounding_bound :: "dmatrix \<Rightarrow> nat \<Rightarrow> real" where
  "rounding_bound H i =
     ((1 + unit_roundoff) ^ length (col_els H i) - 1) * abs_row_sum H i +
     unit_roundoff * \<bar>val (entry H i i) + val (getRegularization H)\<bar>"

text \<open>
  Modelled from the spec: \<^verbatim>\<open>casadi_mv_t\<close> (casadi/core/runtime) is not part of the
  sources at hand; the spec uses it for \<open>g_lag = grad_f + jac_g\<^sup>T \<cdot> mu + mu_x\<close>: it adds
  the product of the transposed matrix with a vector to \<open>z\<close>, column by column.
\<close>

definition casadi_mv_t :: "real matrix \<Rightarrow> vec \<Rightarrow> vec \<Rightarrow> vec" where
  "casadi_mv_t A v z =
     map (\<lambda>i. z ! i + sum_list (map (\<lambda>el. data A ! el * v ! (row A ! el)) (col_els A i)))
       [0..<size2 A]"

subsection \<open>The BFGS update function (\<^verbatim>\<open>bfgs_\<close>, built by \<^verbatim>\<open>Sqpmethod::init\<close>)\<close>

text \<open>
  \<^verbatim>\<open>init\<close> builds \<^verbatim>\<open>bfgs_\<close> as a symbolic expression over a dense \<^verbatim>\<open>Bk\<close> (the
  pattern is \<^verbatim>\<open>Sparsity::dense(nx_, nx_)\<close> when the Hessian is approximated); a dense
  matrix is the list of its rows here. The expression is evaluated in doubles: the
  divisions have no guard, and a zero denominator gives an infinity or a NaN.
\<close>

text \<open>
  Modelled from the spec: \<^verbatim>\<open>mul\<close> (casadi/core) is not part of the sources at hand; the
  spec writes \<open>qk = B \<cdot> sk\<close>, the product of a matrix with a vector. (The outer products
  \<^verbatim>\<open>mul(yk, yk.T())\<close> and \<^verbatim>\<open>mul(qk, qk.T())\<close> are written out entry by entry below.)
\<close>

definition mul_mv :: "'a::{zero, plus, times} list list \<Rightarrow> 'a list \<Rightarrow> 'a list" where
  "mul_mv B v = map (\<lambda>r. inner_prod r v) B"

text \<open>
  Lines 187 to 199 of the source, in their order. The result is \<^verbatim>\<open>Bk_new\<close>, entry by
  entry. Modelled from the spec: \<^verbatim>\<open>if_else\<close> (casadi/core) is not part of the sources at
  hand; it is the conditional of section 4.4 of the spec.
\<close>

definition bfgs :: "double list list \<Rightarrow> double list \<Rightarrow> double list \<Rightarrow> double list \<Rightarrow> double list
    \<Rightarrow> double list list" where
  "bfgs B xv xv_old gLagv gLagv_old =
     (let sk = vminus xv xv_old;
          yk = vminus gLagv gLagv_old;
          qk = mul_mv B sk;
          skBksk = inner_prod sk qk;
          omega = (if inner_prod yk sk < dbl (2 / 10) * inner_prod sk qk
                   then dbl (8 / 10) * skBksk / (skBksk - inner_prod sk yk)
                   else 1);
          yk2 = vplus (map (\<lambda>e. omega * e) yk) (map (\<lambda>e. (1 - omega) * e) qk);
          theta = 1 / inner_prod sk yk2;
          phi = 1 / inner_prod qk sk
      in map (\<lambda>i. map (\<lambda>j. B ! i ! j + theta * (yk2 ! i * yk2 ! j) - phi * (qk ! i * qk ! j))
                    [0..<length xv])
           [0..<length xv])"

text \<open>The dense view of a stored matrix, which \<^verbatim>\<open>bfgs_.setInput(Bk_, BFGS_BK)\<close>
  passes, and \<^verbatim>\<open>bfgs_.getOutput(Bk_)\<close>, which stores the entries of the result at the
  positions of the pattern, whatever they are.\<close>

definition to_dense :: "dmatrix \<Rightarrow> double list list" where
  "to_dense H = map (\<lambda>i. map (\<lambda>j. entry H i j) [0..<size2 H]) [0..<size1 H]"

definition getOutput_dense :: "double list list \<Rightarrow> dmatrix \<Rightarrow> dmatrix" where
  "getOutput_dense M H =
     H\<lparr>data := concat (map (\<lambda>cc. map (\<lambda>el. M ! (row H ! el) ! cc) (col_els H cc))
                         [0..<size2 H])\<rparr>"

subsection \<open>The solver object\<close>

text \<open>
  What can go wrong. An evaluator throws a \<^verbatim>\<open>CasadiException\<close> or another
  \<^verbatim>\<open>std::exception\<close>; the line search catches the first kind only. The other two
  errors mark the places where the source leaves defined behaviour:
  \<^verbatim>\<open>*max_element\<close> of an empty \<^verbatim>\<open>merit_mem_\<close>, and \<^verbatim>\<open>iter % lbfgs_memory_\<close> with a
  zero divisor.
\<close>

datatype exn = CasadiException | StdException

datatype error = Thrown exn | EmptyMeritMemory | ModuloByZero

datatype return_status = Solve_Succeeded | Maximum_Iterations_Exceeded
  | Search_Direction_Becomes_Too_Small | User_Requested_Stop

text \<open>The inputs and outputs of a solve (\<^verbatim>\<open>NLPSOL_X0\<close>, \<^verbatim>\<open>NLPSOL_LBX\<close>, \<dots> and
  \<^verbatim>\<open>NLPSOL_F\<close>, \<^verbatim>\<open>NLPSOL_X\<close>, \<dots>).\<close>

record nlp_input =
  in_x0 :: vec
  in_lbx :: vec
  in_ubx :: vec
  in_lbg :: vec
  in_ubg :: vec
  in_lam_g0 :: vec
  in_lam_x0 :: vec

record nlp_output =
  out_f :: real
  out_x :: vec
  out_lam_g :: vec
  out_lam_x :: vec
  out_g :: vec

text \<open>
  The members that a solve does not change: the options read by \<^verbatim>\<open>init\<close>, the
  dimensions, and the function objects of the collaborators (the parameter input
  \<^verbatim>\<open>NLPSOL_P\<close> is fixed in them). Their declarations (sqpmethod.hpp) are not part of
  the sources at hand: the counters compared with the \<^verbatim>\<open>int\<close> variables \<^verbatim>\<open>iter\<close> and
  \<^verbatim>\<open>ls_iter\<close> are \<open>int\<close>, the capacity \<^verbatim>\<open>merit_memsize_\<close>, compared with a size, is a
  \<open>nat\<close>. The member \<^verbatim>\<open>regularize_\<close> is \<open>regularize_flag\<close>.
\<close>

record sqpmethod =
  max_iter :: int
  max_iter_ls :: int
  c1 :: real
  beta :: real
  merit_memsize :: nat
  lbfgs_memory :: int
  tol_pr :: real
  tol_du :: real
  regularize_flag :: bool
  exact_hessian :: bool
  min_step_size :: real
  nx :: nat
  ng :: nat
  nlp :: "vec \<Rightarrow> exn + (real \<times> vec)"
  gradF :: "vec \<Rightarrow> exn + (real \<times> vec)"
  jacG :: "vec \<Rightarrow> exn + (vec \<times> real matrix)"
  hessLag :: "vec \<Rightarrow> real \<Rightarrow> vec \<Rightarrow> exn + dmatrix"
  qpsol :: "dmatrix \<Rightarrow> vec \<Rightarrow> vec \<Rightarrow> vec \<Rightarrow> vec \<Rightarrow> real matrix \<Rightarrow> vec \<Rightarrow> vec
             \<Rightarrow> exn + (vec \<times> vec \<times> vec)"
  fcallback :: "(nlp_output \<Rightarrow> exn + real) option"

text \<open>The members and local variables that \<^verbatim>\<open>evalD\<close> changes (a member \<^verbatim>\<open>x_\<close> is the
  field \<open>x\<close>), and the output buffers.\<close>

record sqp_state =
  x :: vec
  x_cand :: vec
  x_old :: vec
  fk :: real
  gk :: vec
  gk_cand :: vec
  gf :: vec
  Jk :: "real matrix"
  mu :: vec
  mu_x :: vec
  gLag :: vec
  gLag_old :: vec
  Bk :: dmatrix
  dx :: vec
  qp_DUAL_X :: vec
  qp_DUAL_A :: vec
  merit_mem :: "real list"
  sigma :: real
  reg :: double
  iter :: int
  ls_iter :: int
  ls_success :: bool
  t :: real
  outputs :: nlp_output

subsection \<open>The evaluators (\<^verbatim>\<open>eval_f\<close>, \<^verbatim>\<open>eval_g\<close>, \<^verbatim>\<open>eval_jac_g\<close>, \<^verbatim>\<open>eval_grad_f\<close>, \<^verbatim>\<open>eval_h\<close>,
  \<^verbatim>\<open>solve_QP\<close>)\<close>

text \<open>Each passes its arguments to a function object, evaluates it and reads the
  results; an exception is reported and thrown again. Timing and printing are left
  out.\<close>

definition eval_f :: "sqpmethod \<Rightarrow> vec \<Rightarrow> exn + real" where
  "eval_f m xv = (case nlp m xv of Inl e \<Rightarrow> Inl e | Inr (f, g) \<Rightarrow> Inr f)"

definition eval_g :: "sqpmethod \<Rightarrow> vec \<Rightarrow> vec \<Rightarrow> exn + vec" where
  "eval_g m xv g0 =
     (if ng m = 0 then Inr g0
      else (case nlp m xv of Inl e \<Rightarrow> Inl e | Inr (f, g) \<Rightarrow> Inr g))"

definition eval_jac_g :: "sqpmethod \<Rightarrow> vec \<Rightarrow> vec \<Rightarrow> real matrix \<Rightarrow> exn + (vec \<times> real matrix)" where
  "eval_jac_g m xv g0 J0 =
     (if ng m = 0 then Inr (g0, J0)
      else (case jacG m xv of Inl e \<Rightarrow> Inl e | Inr (g, J) \<Rightarrow> Inr (g, J)))"

definition eval_grad_f :: "sqpmethod \<Rightarrow> vec \<Rightarrow> exn + (real \<times> vec)" where
  "eval_grad_f m xv = (case gradF m xv of Inl e \<Rightarrow> Inl e | Inr (f, grad_f) \<Rightarrow> Inr (f, grad_f))"

text \<open>\<^verbatim>\<open>eval_h\<close> returns the Hessian and the value of \<^verbatim>\<open>reg_\<close>, which it sets only when
  regularisation is on.\<close>

definition eval_h :: "sqpmethod \<Rightarrow> vec \<Rightarrow> vec \<Rightarrow> real \<Rightarrow> double \<Rightarrow> exn + (dmatrix \<times> double)" where
  "eval_h m xv lambda sig reg0 =
     (case hessLag m xv sig lambda of
        Inl e \<Rightarrow> Inl e
      | Inr H \<Rightarrow>
          (if regularize_flag m
           then (let r = getRegularization H
                 in if r > 0 then Inr (regularize H r, r) else Inr (H, r))
           else Inr (H, reg0)))"

definition solve_QP ::
  "sqpmethod \<Rightarrow> dmatrix \<Rightarrow> vec \<Rightarrow> vec \<Rightarrow> vec \<Rightarrow> real matrix \<Rightarrow> vec \<Rightarrow> vec \<Rightarrow> vec
     \<Rightarrow> exn + (vec \<times> vec \<times> vec)" where
  "solve_QP m H g lbx ubx A lbA ubA x_opt = qpsol m H g x_opt lbx ubx A lbA ubA"

subsection \<open>The main loop of \<^verbatim>\<open>Sqpmethod::evalD\<close>\<close>

text \<open>The gradient of the Lagrangian, as the source computes it in three places:
  \<^verbatim>\<open>copy(gf_, gLag)\<close>, \<^verbatim>\<open>if (ng_>0) casadi_mv_t(Jk_, mu_, gLag)\<close>, \<^verbatim>\<open>gLag += mu_x_\<close>.\<close>

definition lagrangian_gradient :: "sqpmethod \<Rightarrow> sqp_state \<Rightarrow> vec" where
  "lagrangian_gradient m s =
     vplus (if ng m > 0 then casadi_mv_t (Jk s) (mu s) (gf s) else gf s) (mu_x s)"

text \<open>The writes of the current iterate to the output buffers before the callback
  is called (lines 363 to 367); a vector output that is empty is left alone (the
  objective output is a scalar and never empty).\<close>

definition callback_outputs :: "sqp_state \<Rightarrow> nlp_output" where
  "callback_outputs s =
     (let out = outputs s;
          out = out\<lparr>out_f := fk s\<rparr>;
          out = (if out_x out \<noteq> [] then out\<lparr>out_x := x s\<rparr> else out);
          out = (if out_lam_g out \<noteq> [] then out\<lparr>out_lam_g := mu s\<rparr> else out);
          out = (if out_lam_x out \<noteq> [] then out\<lparr>out_lam_x := mu_x s\<rparr> else out);
          out = (if out_g out \<noteq> [] then out\<lparr>out_g := gk s\<rparr> else out)
      in out)"

text \<open>\<^verbatim>\<open>static_cast<int>\<close> of the value the callback returns: towards zero.\<close>

definition to_int :: "real \<Rightarrow> int" where
  "to_int r = (if 0 \<le> r then \<lfloor>r\<rfloor> else \<lceil>r\<rceil>)"

text \<open>Lines 360 to 397: with a callback, write the outputs, call it, and stop when it
  returns a value that is not zero.\<close>

definition callback_step :: "sqpmethod \<Rightarrow> sqp_state \<Rightarrow> error + (sqp_state \<times> bool)" where
  "callback_step m s =
     (case fcallback m of
        None \<Rightarrow> Inr (s, False)
      | Some cb \<Rightarrow>
          (let s1 = s\<lparr>outputs := callback_outputs s\<rparr>
           in case cb (outputs s1) of
                Inl e \<Rightarrow> Inl (Thrown e)
              | Inr ret_double \<Rightarrow> Inr (s1, to_int ret_double \<noteq> 0)))"

text \<open>Lines 399 to 421: the three tests, in the order of the source.\<close>

definition convergence_checks :: "sqpmethod \<Rightarrow> int \<Rightarrow> real \<Rightarrow> real \<Rightarrow> real \<Rightarrow> return_status option" where
  "convergence_checks m it pr_inf gLag_norminf dx_norminf =
     (if pr_inf < tol_pr m \<and> gLag_norminf < tol_du m then Some Solve_Succeeded
      else if it \<ge> max_iter m then Some Maximum_Iterations_Exceeded
      else if it > 0 \<and> dx_norminf \<le> min_step_size m then Some Search_Direction_Becomes_Too_Small
      else None)"

text \<open>Lines 318 to 421, the head of a pass: the measures, the callback, the tests. The
  second component is the status with which the loop is left, or \<open>None\<close> when the pass
  goes on.\<close>

definition loop_head :: "sqpmethod \<Rightarrow> nlp_input \<Rightarrow> sqp_state \<Rightarrow> error + (sqp_state \<times> return_status option)" where
  "loop_head m inp s =
     (let pr_inf = primalInfeasibility (x s) (in_lbx inp) (in_ubx inp) (gk s) (in_lbg inp) (in_ubg inp);
          gLag_norminf = norm_inf (gLag s);
          dx_norminf = norm_inf (dx s)
      in case callback_step m s of
           Inl e \<Rightarrow> Inl e
         | Inr (s1, stop) \<Rightarrow>
             (if stop then Inr (s1, Some User_Requested_Stop)
              else Inr (s1, convergence_checks m (iter s1) pr_inf gLag_norminf dx_norminf)))"

text \<open>Lines 423 to 435: count the iteration, formulate the QP and solve it, with the
  last step as the initial guess.\<close>

definition qp_phase :: "sqpmethod \<Rightarrow> nlp_input \<Rightarrow> sqp_state \<Rightarrow> error + sqp_state" where
  "qp_phase m inp s =
     (let s1 = s\<lparr>iter := iter s + 1\<rparr>;
          qp_LBX = vminus (in_lbx inp) (x s1);
          qp_UBX = vminus (in_ubx inp) (x s1);
          qp_LBA = vminus (in_lbg inp) (gk s1);
          qp_UBA = vminus (in_ubg inp) (gk s1)
      in case solve_QP m (Bk s1) (gf s1) qp_LBX qp_UBX (Jk s1) qp_LBA qp_UBA (dx s1) of
           Inl e \<Rightarrow> Inl (Thrown e)
         | Inr (x_opt, lambda_x_opt, lambda_A_opt) \<Rightarrow>
             Inr (s1\<lparr>dx := x_opt, qp_DUAL_X := lambda_x_opt, qp_DUAL_A := lambda_A_opt\<rparr>))"

text \<open>Lines 443 to 468: the penalty parameter, the right-hand side of the Armijo
  condition (returned with the state), the merit value stored in \<^verbatim>\<open>merit_mem_\<close>
  (\<^verbatim>\<open>push_back\<close>, then \<^verbatim>\<open>pop_front\<close> when the size exceeds the capacity), and the
  reset of the step size and of the line-search counters. The warning about an
  indefinite Hessian (lines 437 to 441) changes nothing and is left out.\<close>

definition merit_phase :: "sqpmethod \<Rightarrow> nlp_input \<Rightarrow> sqp_state \<Rightarrow> sqp_state \<times> real" where
  "merit_phase m inp s =
     (let sigma1 = max (sigma s) (1.01 * norm_inf (qp_DUAL_X s));
          sigma2 = max sigma1 (1.01 * norm_inf (qp_DUAL_A s));
          l1_infeas = primalInfeasibility (x s) (in_lbx inp) (in_ubx inp) (gk s) (in_lbg inp) (in_ubg inp);
          F_sens = inner_prod (dx s) (gf s);
          L1dir = F_sens - sigma2 * l1_infeas;
          L1merit = fk s + sigma2 * l1_infeas;
          pushed = merit_mem s @ [L1merit];
          mem = (if length pushed > merit_memsize m then tl pushed else pushed)
      in (s\<lparr>sigma := sigma2, merit_mem := mem, t := 1, ls_iter := 0, ls_success := True\<rparr>, L1dir))"

text \<open>\<^verbatim>\<open>*max_element(merit_mem_.begin(), merit_mem_.end())\<close>: on an empty deque the
  iterator returned is \<^verbatim>\<open>end()\<close>, and reading through it is undefined.\<close>

definition meritmax :: "real list \<Rightarrow> error + real" where
  "meritmax mem = (case mem of [] \<Rightarrow> Inl EmptyMeritMemory | v # vs \<Rightarrow> Inr (fold max vs v))"

text \<open>What both backtracking places of the line search do:
  \<^verbatim>\<open>t = beta_ * t\<close>.\<close>

definition backtrack :: "sqpmethod \<Rightarrow> sqp_state \<Rightarrow> sqp_state" where
  "backtrack m s = s\<lparr>t := beta m * t s\<rparr>"

text \<open>
  Lines 475 to 513, the line-search loop. It has no bound of its own, so it is a
  partial function: \<open>None\<close> is a loop that never ends. An exception other than
  \<^verbatim>\<open>CasadiException\<close> leaves the loop; a \<^verbatim>\<open>CasadiException\<close> of \<^verbatim>\<open>eval_f\<close> or \<^verbatim>\<open>eval_g\<close>
  counts the trial, backtracks and goes to the next trial (\<^verbatim>\<open>continue\<close>).
\<close>

partial_function (option) line_search_loop ::
  "sqpmethod \<Rightarrow> nlp_input \<Rightarrow> real \<Rightarrow> sqp_state \<Rightarrow> (error + sqp_state) option" where
  "line_search_loop m inp L1dir s =
     (let s1 = s\<lparr>x_cand := map (\<lambda>i. x s ! i + t s * dx s ! i) [0..<nx m]\<rparr>
      in case eval_f m (x_cand s1) of
           Inl e \<Rightarrow>
             (if e = CasadiException
              then line_search_loop m inp L1dir (backtrack m (s1\<lparr>ls_iter := ls_iter s1 + 1\<rparr>))
              else Some (Inl (Thrown e)))
         | Inr fk_cand \<Rightarrow>
             (case eval_g m (x_cand s1) (gk_cand s1) of
                Inl e \<Rightarrow>
                  (if e = CasadiException
                   then line_search_loop m inp L1dir (backtrack m (s1\<lparr>ls_iter := ls_iter s1 + 1\<rparr>))
                   else Some (Inl (Thrown e)))
              | Inr g_cand \<Rightarrow>
                  (let s2 = s1\<lparr>gk_cand := g_cand, ls_iter := ls_iter s1 + 1\<rparr>;
                       l1_infeas = primalInfeasibility (x_cand s2) (in_lbx inp) (in_ubx inp)
                                     (gk_cand s2) (in_lbg inp) (in_ubg inp);
                       L1merit_cand = fk_cand + sigma s2 * l1_infeas
                   in case meritmax (merit_mem s2) of
                        Inl e \<Rightarrow> Some (Inl e)
                      | Inr mmax \<Rightarrow>
                          (if L1merit_cand \<le> mmax + t s2 * c1 m * L1dir then Some (Inr s2)
                           else if ls_iter s2 = max_iter_ls m then Some (Inr (s2\<lparr>ls_success := False\<rparr>))
                           else line_search_loop m inp L1dir (backtrack m s2)))))"

text \<open>Lines 472 to 531: the line search with the update of the duals and of the
  point, or, when \<^verbatim>\<open>max_iter_ls_\<close> is not positive, the full step.\<close>

definition line_search :: "sqpmethod \<Rightarrow> nlp_input \<Rightarrow> real \<Rightarrow> sqp_state \<Rightarrow> (error + sqp_state) option" where
  "line_search m inp L1dir s =
     (if max_iter_ls m > 0
      then (case line_search_loop m inp L1dir s of
              None \<Rightarrow> None
            | Some (Inl e) \<Rightarrow> Some (Inl e)
            | Some (Inr s1) \<Rightarrow>
                Some (Inr (s1\<lparr>mu := map (\<lambda>i. t s1 * qp_DUAL_A s1 ! i + (1 - t s1) * mu s1 ! i) [0..<ng m],
                              mu_x := map (\<lambda>i. t s1 * qp_DUAL_X s1 ! i + (1 - t s1) * mu_x s1 ! i) [0..<nx m],
                              x_old := x s1,
                              x := x_cand s1\<rparr>)))
      else Some (Inr (s\<lparr>mu := qp_DUAL_A s, mu_x := qp_DUAL_X s,
                        x_old := x s, x := vplus (x s) (dx s)\<rparr>)))"

text \<open>Lines 561 to 573: drop the off-diagonal entries of the Hessian approximation.\<close>

definition reset_offdiag :: "dmatrix \<Rightarrow> dmatrix" where
  "reset_offdiag H =
     H\<lparr>data := fold (\<lambda>cc d. fold (\<lambda>el d. if cc \<noteq> row H ! el then d[el := 0] else d)
                                (col_els H cc) d)
                [0..<size2 H] (data H)\<rparr>"

text \<open>\<^verbatim>\<open>iter % lbfgs_memory_\<close> on \<^verbatim>\<open>int\<close>: the remainder of the division towards zero,
  undefined for a zero divisor.\<close>

definition c_rem :: "int \<Rightarrow> int \<Rightarrow> error + int" where
  "c_rem a b = (if b = 0 then Inl ModuloByZero else Inr (sgn a * (\<bar>a\<bar> mod \<bar>b\<bar>)))"

text \<open>Lines 558 to 591: the restart every \<^verbatim>\<open>lbfgs_memory_\<close> iterations, then the BFGS
  update function on the current and the old point and Lagrangian gradient; its
  result becomes \<^verbatim>\<open>Bk_\<close>, finite or not.\<close>

definition bfgs_update :: "sqpmethod \<Rightarrow> sqp_state \<Rightarrow> error + dmatrix" where
  "bfgs_update m s =
     (case c_rem (iter s) (lbfgs_memory m) of
        Inl e \<Rightarrow> Inl e
      | Inr r \<Rightarrow>
          (let B = (if r = 0 then reset_offdiag (Bk s) else Bk s)
           in Inr (getOutput_dense
                    (bfgs (to_dense B) (map Finite (x s)) (map Finite (x_old s))
                       (map Finite (gLag s)) (map Finite (gLag_old s))) B)))"

text \<open>Lines 533 to 596: the old Lagrangian gradient with the new multipliers (for
  BFGS), the Jacobian and the gradient at the new point, the new Lagrangian gradient,
  and the Hessian.\<close>

definition post_phase :: "sqpmethod \<Rightarrow> sqp_state \<Rightarrow> error + sqp_state" where
  "post_phase m s =
     (let s1 = (if \<not> exact_hessian m then s\<lparr>gLag_old := lagrangian_gradient m s\<rparr> else s)
      in case eval_jac_g m (x s1) (gk s1) (Jk s1) of
           Inl e \<Rightarrow> Inl (Thrown e)
         | Inr (g, J) \<Rightarrow>
             (case eval_grad_f m (x s1) of
                Inl e \<Rightarrow> Inl (Thrown e)
              | Inr (f, grad_f) \<Rightarrow>
                  (let s2 = s1\<lparr>gk := g, Jk := J, fk := f, gf := grad_f\<rparr>;
                       s3 = s2\<lparr>gLag := lagrangian_gradient m s2\<rparr>
                   in if \<not> exact_hessian m
                      then (case bfgs_update m s3 of
                              Inl e \<Rightarrow> Inl e
                            | Inr B \<Rightarrow> Inr (s3\<lparr>Bk := B\<rparr>))
                      else (case eval_h m (x s3) (mu s3) 1 (reg s3) of
                              Inl e \<Rightarrow> Inl (Thrown e)
                            | Inr (H, r) \<Rightarrow> Inr (s3\<lparr>Bk := H, reg := r\<rparr>)))))"

text \<open>Lines 423 to 596, the body of a pass after the tests.\<close>

definition iteration :: "sqpmethod \<Rightarrow> nlp_input \<Rightarrow> sqp_state \<Rightarrow> (error + sqp_state) option" where
  "iteration m inp s =
     (case qp_phase m inp s of
        Inl e \<Rightarrow> Some (Inl e)
      | Inr s1 \<Rightarrow>
          (case merit_phase m inp s1 of
             (s2, L1dir) \<Rightarrow>
               (case line_search m inp L1dir s2 of
                  None \<Rightarrow> None
                | Some (Inl e) \<Rightarrow> Some (Inl e)
                | Some (Inr s3) \<Rightarrow> Some (post_phase m s3))))"

text \<open>\<^verbatim>\<open>while (true)\<close>: a pass is the head and, unless the head leaves the loop, the
  body. The result is the state at the \<^verbatim>\<open>break\<close> and the status.\<close>

partial_function (option) main_loop ::
  "sqpmethod \<Rightarrow> nlp_input \<Rightarrow> sqp_state \<Rightarrow> (error + sqp_state \<times> return_status) option" where
  "main_loop m inp s =
     (case loop_head m inp s of
        Inl e \<Rightarrow> Some (Inl e)
      | Inr (s1, status) \<Rightarrow>
          (case status of
             Some st \<Rightarrow> Some (Inr (s1, st))
           | None \<Rightarrow>
               Option.bind (iteration m inp s1)
                 (\<lambda>r. case r of Inl e \<Rightarrow> Some (Inl e) | Inr s2 \<Rightarrow> main_loop m inp s2)))"

text \<open>\<^verbatim>\<open>Bk_.set(B_init_)\<close> in \<^verbatim>\<open>reset_h\<close>, with \<^verbatim>\<open>B_init_ = DMatrix::eye(nx_)\<close>: the
  identity in the pattern of \<^verbatim>\<open>Bk_\<close>.\<close>

definition reset_h :: "dmatrix \<Rightarrow> dmatrix" where
  "reset_h H =
     H\<lparr>data := concat (map (\<lambda>cc. map (\<lambda>el. if row H ! el = cc then 1 else 0) (col_els H cc))
                         [0..<size2 H])\<rparr>"

text \<open>Lines 259 to 313: the state before the first pass. The members keep what the
  last solve left in them where the source does not set them (\<^verbatim>\<open>dx_\<close> for one).\<close>

definition init_solve :: "sqpmethod \<Rightarrow> nlp_input \<Rightarrow> sqp_state \<Rightarrow> error + sqp_state" where
  "init_solve m inp s =
     (let s1 = s\<lparr>x := in_x0 inp, mu := in_lam_g0 inp, mu_x := in_lam_x0 inp\<rparr>
      in case eval_jac_g m (x s1) (gk s1) (Jk s1) of
           Inl e \<Rightarrow> Inl (Thrown e)
         | Inr (g, J) \<Rightarrow>
             (case eval_grad_f m (x s1) of
                Inl e \<Rightarrow> Inl (Thrown e)
              | Inr (f, grad_f) \<Rightarrow>
                  (let s2 = s1\<lparr>gk := g, Jk := J, fk := f, gf := grad_f, reg := 0\<rparr>
                   in case (if exact_hessian m then eval_h m (x s2) (mu s2) 1 (reg s2)
                            else Inr (reset_h (Bk s2), reg s2)) of
                        Inl e \<Rightarrow> Inl (Thrown e)
                      | Inr (H, r) \<Rightarrow>
                          (let s3 = s2\<lparr>Bk := H, reg := r\<rparr>
                           in Inr (s3\<lparr>gLag := lagrangian_gradient m s3, iter := 0, ls_iter := 0,
                                     ls_success := True, merit_mem := [], sigma := 0, t := 0\<rparr>)))))"

text \<open>Lines 602 to 607: the results are saved to the outputs after the loop.\<close>

definition save_results :: "sqp_state \<Rightarrow> sqp_state" where
  "save_results s =
     s\<lparr>outputs := \<lparr>out_f = fk s, out_x = x s, out_lam_g = mu s, out_lam_x = mu_x s, out_g = gk s\<rparr>\<rparr>"

text \<open>\<^verbatim>\<open>Sqpmethod::evalD\<close>: the solver object before the call, the inputs; the object
  after the call and the return status. The checks of the inputs, the statistics, the
  timings and the printing are left out.\<close>

definition evalD :: "sqpmethod \<Rightarrow> nlp_input \<Rightarrow> sqp_state \<Rightarrow> (error + sqp_state \<times> return_status) option" where
  "evalD m inp s =
     (case init_solve m inp s of
        Inl e \<Rightarrow> Some (Inl e)
      | Inr s0 \<Rightarrow>
          (case main_loop m inp s0 of
             None \<Rightarrow> None
           | Some (Inl e) \<Rightarrow> Some (Inl e)
           | Some (Inr (s1, st)) \<Rightarrow> Some (Inr (save_results s1, st))))"

text \<open>The states at the start of the passes of the main loop that begins in \<open>s0\<close>:
  \<open>s0\<close> itself, and the state after the body of a pass whose head went on.\<close>

inductive reachable :: "sqpmethod \<Rightarrow> nlp_input \<Rightarrow> sqp_state \<Rightarrow> sqp_state \<Rightarrow> bool"
  for m :: sqpmethod and inp :: nlp_input and s0 :: sqp_state where
  reachable_start: "reachable m inp s0 s0"
| reachable_pass: "reachable m inp s0 s \<Longrightarrow> loop_head m inp s = Inr (s1, None)
    \<Longrightarrow> iteration m inp s1 = Some (Inr s2) \<Longrightarrow> reachable m inp s0 s2"

subsection \<open>A small problem\<close>

text \<open>
  Minimise \<open>(x - 1)\<^sup>2\<close> for \<open>-10 \<le> x \<le> 1/2\<close>, without constraints, from \<open>x = 0\<close>, with
  the exact Hessian and the default options of the source. The QP collaborator solves
  the one-dimensional subproblem exactly, and throws when the Hessian is not finite. \<open>ex_state\<close> is the solver object as \<^verbatim>\<open>init\<close>
  leaves it: vectors of zeros of the right sizes.
\<close>

definition ex_H :: "real \<Rightarrow> dmatrix" where
  "ex_H h = \<lparr>size1 = 1, size2 = 1, colind = [0, 1], row = [0], data = [Finite h]\<rparr>"

definition ex_J :: "real matrix" where
  "ex_J = \<lparr>size1 = 0, size2 = 1, colind = [0, 0], row = [], data = []\<rparr>"

definition ex_qpsol ::
  "dmatrix \<Rightarrow> vec \<Rightarrow> vec \<Rightarrow> vec \<Rightarrow> vec \<Rightarrow> real matrix \<Rightarrow> vec \<Rightarrow> vec \<Rightarrow> exn + (vec \<times> vec \<times> vec)" where
  "ex_qpsol H g x0 lbx ubx A lbA ubA =
     (if is_finite (data H ! 0)
      then (let h = val (data H ! 0);
                d = max (lbx ! 0) (min (ubx ! 0) (- (g ! 0) / h))
            in Inr ([d], [- (h * d + g ! 0)], []))
      else Inl StdException)"

definition ex_solver :: sqpmethod where
  "ex_solver =
     \<lparr>max_iter = 50, max_iter_ls = 3, c1 = 1 / 10000, beta = 8 / 10, merit_memsize = 4,
      lbfgs_memory = 10, tol_pr = 1 / 1000000, tol_du = 1 / 1000000, regularize_flag = False,
      exact_hessian = True, min_step_size = 1 / 10000000000, nx = 1, ng = 0,
      nlp = (\<lambda>v. Inr ((v ! 0 - 1)\<^sup>2, [])),
      gradF = (\<lambda>v. Inr ((v ! 0 - 1)\<^sup>2, [2 * (v ! 0 - 1)])),
      jacG = (\<lambda>v. Inr ([], ex_J)),
      hessLag = (\<lambda>v sig lam. Inr (ex_H (2 * sig))),
      qpsol = ex_qpsol,
      fcallback = None\<rparr>"

definition ex_input :: nlp_input where
  "ex_input = \<lparr>in_x0 = [0], in_lbx = [-10], in_ubx = [1 / 2], in_lbg = [], in_ubg = [],
                in_lam_g0 = [], in_lam_x0 = [0]\<rparr>"

definition ex_state :: sqp_state where
  "ex_state =
     \<lparr>x = [0], x_cand = [0], x_old = [0], fk = 0, gk = [], gk_cand = [], gf = [0],
      Jk = ex_J, mu = [], mu_x = [0], gLag = [0], gLag_old = [0], Bk = ex_H 0, dx = [0],
      qp_DUAL_X = [0], qp_DUAL_A = [], merit_mem = [], sigma = 0, reg = 0, iter = 0,
      ls_iter = 0, ls_success = True, t = 0,
      outputs = \<lparr>out_f = 0, out_x = [0], out_lam_g = [], out_lam_x = [0], out_g = []\<rparr>\<rparr>"

text \<open>The state before the first pass, and the state after it: the QP step \<open>1/2\<close>
  reaches the upper bound, the first trial of the line search is accepted, and the
  second pass finds the problem solved.\<close>

definition ex_s0 :: sqp_state where
  "ex_s0 = ex_state\<lparr>fk := 1, gf := [-2], gLag := [-2], Bk := ex_H 2\<rparr>"

definition ex_s1 :: sqp_state where
  "ex_s1 = ex_state\<lparr>x := [1 / 2], x_cand := [1 / 2], fk := 1 / 4, gf := [-1], mu_x := [1],
             gLag := [0], Bk := ex_H 2, dx := [1 / 2], qp_DUAL_X := [1], merit_mem := [1],
             sigma := 101 / 100, iter := 1, ls_iter := 1, t := 1\<rparr>"

text \<open>Variants of the problem: a callback that never asks to stop; an objective
  whose evaluation fails with a \<^verbatim>\<open>CasadiException\<close> from \<open>x = 1/2\<close> on (a barrier, say),
  with one line-search iteration allowed; a merit memory of size zero; no line search.\<close>

definition ex_callback :: "nlp_output \<Rightarrow> exn + real" where
  "ex_callback out = Inr 0"

definition ex_solver_callback :: sqpmethod where
  "ex_solver_callback = ex_solver\<lparr>fcallback := Some ex_callback\<rparr>"

definition ex_nlp_barrier :: "vec \<Rightarrow> exn + (real \<times> vec)" where
  "ex_nlp_barrier v = (if v ! 0 \<ge> 1 / 2 then Inl CasadiException else Inr ((v ! 0 - 1)\<^sup>2, []))"

definition ex_solver_barrier :: sqpmethod where
  "ex_solver_barrier = ex_solver\<lparr>max_iter_ls := 1, nlp := ex_nlp_barrier\<rparr>"

definition ex_solver_nomem :: sqpmethod where
  "ex_solver_nomem = ex_solver\<lparr>merit_memsize := 0\<rparr>"

definition ex_solver_fullstep :: sqpmethod where
  "ex_solver_fullstep = ex_solver\<lparr>max_iter_ls := 0\<rparr>"

text \<open>The barrier variant with a merit memory of one value. The first pass stops
  short of the bound, at \<open>x = 2/5\<close>, so there is a second pass: its QP step is \<open>1/10\<close>, the
  merit value \<open>9/25\<close> is stored and the value \<open>1\<close> of the first pass is dropped, the first
  trial of the line search fails at the barrier and the second is accepted.\<close>

definition ex_solver_mem1 :: sqpmethod where
  "ex_solver_mem1 = ex_solver_barrier\<lparr>merit_memsize := 1\<rparr>"

definition ex_m1 :: sqp_state where
  "ex_m1 = ex_s1\<lparr>x := [2 / 5], x_cand := [2 / 5], fk := 9 / 25, gf := [- 6 / 5], mu_x := [4 / 5],
             gLag := [- 2 / 5], ls_iter := 2, t := 4 / 5\<rparr>"

definition ex_m2 :: sqp_state where
  "ex_m2 = ex_m1\<lparr>x := [12 / 25], x_cand := [12 / 25], x_old := [2 / 5], fk := 169 / 625,
             gf := [- 26 / 25], mu_x := [24 / 25], gLag := [- 2 / 25], dx := [1 / 10],
             merit_mem := [9 / 25], iter := 2\<rparr>"

text \<open>The problem with the BFGS approximation, started at the solution \<open>x = 1/2\<close>
  with a zero multiplier guess: the state before the first pass, the state in
  which the first iteration reaches the BFGS update, and the state after it. The QP
  step is zero, the line search accepts it, the point has not moved, and the update
  makes the one entry of the Hessian approximation a NaN.\<close>

definition ex_solver_bfgs :: sqpmethod where
  "ex_solver_bfgs = ex_solver\<lparr>exact_hessian := False\<rparr>"

definition ex_input_bound :: nlp_input where
  "ex_input_bound = ex_input\<lparr>in_x0 := [1 / 2]\<rparr>"

definition ex_b0 :: sqp_state where
  "ex_b0 = ex_state\<lparr>x := [1 / 2], fk := 1 / 4, gf := [-1], gLag := [-1], Bk := ex_H 1\<rparr>"

definition ex_b1 :: sqp_state where
  "ex_b1 = ex_b0\<lparr>x_cand := [1 / 2], x_old := [1 / 2], mu_x := [1], gLag := [0], gLag_old := [0],
             dx := [0], qp_DUAL_X := [1], merit_mem := [1 / 4], sigma := 101 / 100, iter := 1,
             ls_iter := 1, t := 1\<rparr>"

definition ex_NaN :: dmatrix where
  "ex_NaN = \<lparr>size1 = 1, size2 = 1, colind = [0, 1], row = [0], data = [NaN]\<rparr>"

definition ex_b2 :: sqp_state where
  "ex_b2 = ex_b1\<lparr>Bk := ex_NaN\<rparr>"

text \<open>A symmetric indefinite matrix with rows \<open>(1, -3)\<close> and \<open>(-3, 2)\<close>, stored
  densely; the matrix with rows \<open>(-0.5, 0.1)\<close> and \<open>(0.1, -0.5)\<close>, where \<^verbatim>\<open>0.1\<close> is the
  literal of C++, the double nearest to one tenth; a matrix with rows \<open>(0, 1)\<close> and
  \<open>(1, 0)\<close> whose pattern has no diagonal position; and the small solver with
  regularisation, whose Hessian is the first or the second.\<close>

definition ex_indefinite :: dmatrix where
  "ex_indefinite = \<lparr>size1 = 2, size2 = 2, colind = [0, 2, 4], row = [0, 1, 0, 1],
                     data = map Finite [1, -3, -3, 2]\<rparr>"

definition ex_tenth :: dmatrix where
  "ex_tenth = \<lparr>size1 = 2, size2 = 2, colind = [0, 2, 4], row = [0, 1, 0, 1],
                data = [Finite (- 1 / 2), dbl (1 / 10), dbl (1 / 10), Finite (- 1 / 2)]\<rparr>"

definition ex_offdiag :: dmatrix where
  "ex_offdiag = \<lparr>size1 = 2, size2 = 2, colind = [0, 1, 2], row = [1, 0], data = map Finite [1, 1]\<rparr>"

definition ex_solver_regularize :: sqpmethod where
  "ex_solver_regularize = ex_solver\<lparr>regularize_flag := True, hessLag := (\<lambda>v sig lam. Inr ex_indefinite)\<rparr>"

definition ex_solver_tenth :: sqpmethod where
  "ex_solver_tenth = ex_solver\<lparr>regularize_flag := True, hessLag := (\<lambda>v sig lam. Inr ex_tenth)\<rparr>"

section \<open>Properties\<close>

subsection \<open>Doubles\<close>

text \<open>Rounding: the exponent that the search finds is \<open>\<lfloor>log\<^sub>2 a\<rfloor>\<close>; the result is within
  half a unit in the last place, so the relative error is at most the unit roundoff; a
  positive number stays positive.\<close>

lemma expo_floor_log: "0 < a \<Longrightarrow> expo a = \<lfloor>log 2 a\<rfloor>"
proof (induction a rule: expo.induct)
  case (1 a)
  show ?case
  proof (cases "2 \<le> a")
    case True
    have "log 2 (a / 2) = log 2 a - 1" using 1(3) by (simp add: log_divide)
    then show ?thesis using 1(1)[of] 1(3) True by (subst expo.simps) simp
  next
    case False
    show ?thesis
    proof (cases "a < 1")
      case True
      have "log 2 (2 * a) = log 2 a + 1" using 1(3) by (simp add: log_mult)
      then show ?thesis using 1(2) 1(3) True False by (subst expo.simps) simp
    next
      case F2: False
      have "0 \<le> log 2 a" "log 2 a < 1" using False F2 1(3) by (simp_all add: log_less_iff)
      then have "\<lfloor>log 2 a\<rfloor> = 0" by linarith
      then show ?thesis using False F2 1(3) by (subst expo.simps) simp
    qed
  qed
qed

lemma pow2_powr: "pow2 e = 2 powr of_int e"
proof (cases "0 \<le> e")
  case True
  then have "real_of_int e = real (nat e)" by simp
  then have "2 powr real_of_int e = 2 powr real (nat e)" by (rule arg_cong)
  also have "\<dots> = 2 ^ nat e" by (rule powr_realpow) simp
  finally show ?thesis using True by (simp only: pow2_def if_True)
next
  case False
  then have "real_of_int e = - real (nat (- e))" by simp
  then have "2 powr real_of_int e = 2 powr (- real (nat (- e)))" by (rule arg_cong)
  also have "\<dots> = 1 / 2 powr real (nat (- e))" by (simp add: powr_minus field_simps)
  also have "2 powr real (nat (- e)) = 2 ^ nat (- e)" by (rule powr_realpow) simp
  finally show ?thesis using False by (simp only: pow2_def if_False)
qed

lemma rnd_log:
  "rnd a = (if a = 0 then 0
            else (let e = \<lfloor>log 2 \<bar>a\<bar>\<rfloor> - 52
                  in of_int (round_even (a / 2 powr of_int e)) * 2 powr of_int e))"
  by (simp add: rnd_def expo_floor_log pow2_powr)

lemma round_even_err: "\<bar>of_int (round_even y) - y\<bar> \<le> 1 / 2"
  unfolding round_even_def Let_def by (auto simp: abs_if) linarith+

lemma rnd_error: "\<bar>rnd a - a\<bar> \<le> unit_roundoff * \<bar>a\<bar>"
proof (cases "a = 0")
  case True
  then show ?thesis by (simp add: rnd_log)
next
  case False
  define e where "e = \<lfloor>log 2 \<bar>a\<bar>\<rfloor> - 52"
  define y where "y = a / 2 powr of_int e"
  have r: "rnd a = of_int (round_even y) * 2 powr of_int e"
    using False by (simp add: rnd_log Let_def e_def y_def)
  have "rnd a - a = (of_int (round_even y) - y) * 2 powr of_int e"
    unfolding r by (simp add: y_def left_diff_distrib)
  then have "\<bar>rnd a - a\<bar> = \<bar>of_int (round_even y) - y\<bar> * 2 powr of_int e"
    by (simp add: abs_mult)
  also have "\<dots> \<le> 1 / 2 * 2 powr of_int e"
    by (intro mult_right_mono round_even_err) simp
  also have "\<dots> = 2 powr (of_int e - 1)"
    by (simp add: powr_diff)
  also have "of_int e - 1 = of_int \<lfloor>log 2 \<bar>a\<bar>\<rfloor> - (53::real)" by (simp add: e_def)
  also have "2 powr (of_int \<lfloor>log 2 \<bar>a\<bar>\<rfloor> - (53::real)) \<le> 2 powr (log 2 \<bar>a\<bar> - 53)"
    by (intro powr_mono) simp_all
  also have "\<dots> = unit_roundoff * \<bar>a\<bar>"
    using False by (simp add: powr_diff powr_numeral unit_roundoff_def)
  finally show ?thesis .
qed

lemma rnd_zero: "rnd 0 = 0"
  by (simp add: rnd_log)

lemma rnd_pos: "0 < a \<Longrightarrow> 0 < rnd a"
  using rnd_error[of a] by (simp add: unit_roundoff_def abs_if split: if_splits)

lemma rnd_neg: "a < 0 \<Longrightarrow> rnd a < 0"
  using rnd_error[of a] by (simp add: unit_roundoff_def abs_if split: if_splits)

lemma dbl_cases:
  obtains (fin) "dbl r = Finite (rnd r)" "\<bar>rnd r\<bar> < 2 ^ 1024"
  | (pinf) "dbl r = PInf" "2 ^ 1024 \<le> rnd r"
  | (ninf) "dbl r = NInf" "rnd r \<le> - (2 ^ 1024)"
  unfolding dbl_def Let_def by (cases "rnd r \<ge> 2 ^ 1024"; cases "rnd r \<le> - (2 ^ 1024)") auto

lemma dbl_not_NaN: "dbl r \<noteq> NaN"
  by (cases r rule: dbl_cases) simp_all

lemma dbl_zero: "dbl 0 = 0"
  by (simp add: dbl_def rnd_zero zero_double_def)

lemma dbl_pos_iff: "0 < dbl r \<longleftrightarrow> 0 < r"
proof (cases "0 < r")
  case True
  then have "0 < rnd r" by (rule rnd_pos)
  then show ?thesis using True by (cases r rule: dbl_cases) (simp_all add: zero_double_def)
next
  case False
  then have "rnd r \<le> 0" using rnd_neg[of r] rnd_zero by (cases "r = 0") auto
  then show ?thesis using False by (cases r rule: dbl_cases) (simp_all add: zero_double_def)
qed

lemma dbl_finite: "dbl r = Finite v \<Longrightarrow> v = rnd r"
  by (cases r rule: dbl_cases) simp_all

lemma dbl_finite_error:
  assumes "dbl a = Finite v"
  shows "\<bar>v - a\<bar> \<le> unit_roundoff * \<bar>a\<bar>"
  using dbl_finite[OF assms] rnd_error[of a] by simp

lemma unit_roundoff_bounds: "0 < unit_roundoff" "unit_roundoff < 1"
  by (simp_all add: unit_roundoff_def)

lemma dbl_small:
  "dbl 1 = Finite 1" "dbl (- 1) = Finite (- 1)" "dbl 2 = Finite 2" "dbl (- 2) = Finite (- 2)"
  "dbl 3 = Finite 3" "dbl (- 3) = Finite (- 3)" "dbl 4 = Finite 4" "dbl (- 4) = Finite (- 4)"
  by (simp_all add: dbl_def rnd_def expo.simps pow2_def round_even_def Let_def)

text \<open>The comparisons: \<open><\<close> is transitive and total on the values that are not NaN.\<close>

lemma less_double_trans_not:
  fixes a b c :: double
  shows "a \<noteq> NaN \<Longrightarrow> b \<noteq> NaN \<Longrightarrow> \<not> a < b \<Longrightarrow> a < c \<Longrightarrow> b < c"
  by (cases a; cases b; cases c) simp_all

lemma less_double_not_NaN:
  fixes a b :: double
  shows "a < b \<Longrightarrow> a \<noteq> NaN \<and> b \<noteq> NaN"
  by (cases a; cases b) simp_all

lemma less_double_irrefl:
  fixes a :: double
  shows "\<not> a < a"
  by (cases a) simp_all

lemma le_double_total:
  fixes a b :: double
  shows "a \<noteq> NaN \<Longrightarrow> b \<noteq> NaN \<Longrightarrow> \<not> b < a \<Longrightarrow> a \<le> b"
  by (cases a; cases b) (auto simp: less_eq_double_def)

lemma le_double_zero:
  fixes a :: double
  shows "0 \<le> a \<Longrightarrow> \<not> 0 < a \<Longrightarrow> a = 0"
  by (cases a) (simp_all add: less_eq_double_def zero_double_def)

lemma diff_double_pos_iff:
  fixes a b :: double
  assumes "a \<noteq> NaN" "b \<noteq> NaN"
  shows "\<not> 0 < a - b \<longleftrightarrow> a \<le> b"
  using assms dbl_pos_iff[of "val a - val b"]
  by (cases a; cases b) (auto simp: minus_double_def less_eq_double_def zero_double_def)

text \<open>NaN and zero in sums and products.\<close>

lemma plus_NaN_right: "a + NaN = (NaN :: double)"
  by (cases a) simp_all

lemma minus_NaN_right: "a - NaN = (NaN :: double)"
  by (simp add: minus_double_def plus_NaN_right)

lemma minus_double_self: "is_finite a \<Longrightarrow> a - a = (0 :: double)"
  by (cases a) (simp_all add: minus_double_def dbl_zero)

lemma times_zero_left: "is_finite b \<Longrightarrow> 0 * b = (0 :: double)"
  by (cases b) (simp_all add: zero_double_def dbl_zero[unfolded zero_double_def])

lemma times_zero_right: "is_finite b \<Longrightarrow> b * 0 = (0 :: double)"
  by (cases b) (simp_all add: zero_double_def dbl_zero[unfolded zero_double_def])

lemma plus_zero_zero: "0 + 0 = (0 :: double)"
  by (simp add: zero_double_def dbl_zero[unfolded zero_double_def])

lemma one_div_zero: "1 / (0 :: double) = PInf"
  by (simp add: one_double_def zero_double_def)

lemma PInf_times_zero: "PInf * (0 * 0) = (NaN :: double)"
  by (simp add: zero_double_def dbl_zero[unfolded zero_double_def])

subsection \<open>Primal infeasibility\<close>

text \<open>A fold of \<^verbatim>\<open>std::max\<close> that starts from a value that is not NaN never becomes NaN,
  ends at the start value or at one of the values it met, and is below none of
  them.\<close>

lemma std_max_double:
  fixes r d :: double
  assumes "r \<noteq> NaN"
  shows "std_max r d \<noteq> NaN" "std_max r d = r \<or> std_max r d = d" "\<not> std_max r d < r"
    "\<not> std_max r d < d"
  using assms less_double_not_NaN[of r d] less_double_irrefl[of r] less_double_irrefl[of d]
  by (auto simp: std_max_def dest: less_double_not_NaN) (cases r; cases d; simp)+

lemma fold_std_max:
  fixes r0 :: double
  assumes "r0 \<noteq> NaN"
  shows "(let r = fold (\<lambda>j r. std_max (std_max r (f j)) (g j)) js r0
          in r \<noteq> NaN \<and> (r = r0 \<or> r \<in> f ` set js \<union> g ` set js) \<and> \<not> r < r0
             \<and> (\<forall>j \<in> set js. \<not> r < f j \<and> \<not> r < g j))"
  using assms(1) unfolding Let_def
proof (induction js arbitrary: r0)
  case Nil
  then show ?case by (simp add: less_double_irrefl)
next
  case (Cons j js)
  define r1 where "r1 = std_max (std_max r0 (f j)) (g j)"
  define r where "r = fold (\<lambda>j r. std_max (std_max r (f j)) (g j)) js r1"
  have m: "std_max r0 (f j) \<noteq> NaN" using Cons.prems by (rule std_max_double)
  have r1: "r1 \<noteq> NaN" unfolding r1_def using m by (rule std_max_double)
  have r1_in: "r1 = r0 \<or> r1 = f j \<or> r1 = g j"
    unfolding r1_def using std_max_double(2)[OF m, of "g j"] std_max_double(2)[OF Cons.prems, of "f j"]
    by auto
  have r1_g: "\<not> r1 < g j" unfolding r1_def using m by (rule std_max_double)
  have r1_m: "\<not> r1 < std_max r0 (f j)" unfolding r1_def using m by (rule std_max_double)
  have m_r0: "\<not> std_max r0 (f j) < r0" using Cons.prems by (rule std_max_double)
  have m_f: "\<not> std_max r0 (f j) < f j" using Cons.prems by (rule std_max_double)
  have r1_r0: "\<not> r1 < r0" using less_double_trans_not[OF r1 m r1_m] m_r0 by blast
  have r1_f: "\<not> r1 < f j" using less_double_trans_not[OF r1 m r1_m] m_f by blast
  have IH: "r \<noteq> NaN \<and> (r = r1 \<or> r \<in> f ` set js \<union> g ` set js) \<and> \<not> r < r1
         \<and> (\<forall>j \<in> set js. \<not> r < f j \<and> \<not> r < g j)"
    unfolding r_def using Cons.IH[OF r1] .
  have up: "\<not> r < c" if "\<not> r1 < c" for c
    using less_double_trans_not[of r r1 c] IH r1 that by blast
  have "fold (\<lambda>j r. std_max (std_max r (f j)) (g j)) (j # js) r0 = r"
    by (simp add: r_def r1_def)
  moreover have "r \<noteq> NaN \<and> (r = r0 \<or> r \<in> f ` set (j # js) \<union> g ` set (j # js)) \<and> \<not> r < r0
         \<and> (\<forall>i \<in> set (j # js). \<not> r < f i \<and> \<not> r < g i)"
    using IH r1_in up[OF r1_r0] up[OF r1_f] up[OF r1_g] by auto
  ultimately show ?case by simp
qed

lemma primalInfeasibility_is_max0:
  fixes xv :: "double list"
  shows "is_max0 (primalInfeasibility xv lbx ubx gv lbg ubg) (violations xv lbx ubx gv lbg ubg)"
proof -
  define rx where "rx = fold (\<lambda>j pr_inf. std_max (std_max pr_inf (lbx ! j - xv ! j)) (xv ! j - ubx ! j))
                     [0..<length xv] 0"
  define r where "r = fold (\<lambda>j pr_inf. std_max (std_max pr_inf (lbg ! j - gv ! j)) (gv ! j - ubg ! j))
           [0..<length gv] rx"
  have pr: "primalInfeasibility xv lbx ubx gv lbg ubg = r"
    by (simp add: primalInfeasibility_def r_def rx_def)
  have z: "(0::double) \<noteq> NaN" by (simp add: zero_double_def)
  have X: "rx \<noteq> NaN \<and> (rx = 0 \<or> rx \<in> (\<lambda>j. lbx ! j - xv ! j) ` set [0..<length xv] \<union> (\<lambda>j. xv ! j - ubx ! j) ` set [0..<length xv])
      \<and> \<not> rx < 0 \<and> (\<forall>j \<in> set [0..<length xv]. \<not> rx < lbx ! j - xv ! j \<and> \<not> rx < xv ! j - ubx ! j)"
    using fold_std_max[OF z, of "\<lambda>j. lbx ! j - xv ! j" "\<lambda>j. xv ! j - ubx ! j" "[0..<length xv]"]
    unfolding rx_def Let_def .
  then have rx: "rx \<noteq> NaN" by blast
  have G: "r \<noteq> NaN \<and> (r = rx \<or> r \<in> (\<lambda>j. lbg ! j - gv ! j) ` set [0..<length gv] \<union> (\<lambda>j. gv ! j - ubg ! j) ` set [0..<length gv])
      \<and> \<not> r < rx \<and> (\<forall>j \<in> set [0..<length gv]. \<not> r < lbg ! j - gv ! j \<and> \<not> r < gv ! j - ubg ! j)"
    using fold_std_max[OF rx, of "\<lambda>j. lbg ! j - gv ! j" "\<lambda>j. gv ! j - ubg ! j" "[0..<length gv]"]
    unfolding r_def Let_def .
  have up: "\<not> r < c" if "\<not> rx < c" for c
    using less_double_trans_not[of r rx c] G rx that by blast
  have nonneg: "0 \<le> r"
    using le_double_total[OF z, of r] G up[of 0] X by blast
  have mem: "r = 0 \<or> r \<in> set (violations xv lbx ubx gv lbg ubg)"
    using X G by (auto simp: violations_def)
  have ub: "list_all (\<lambda>d. \<not> r < d) (violations xv lbx ubx gv lbg ubg)"
    using X G up by (auto simp: violations_def list_all_iff)
  show ?thesis unfolding pr is_max0_def using nonneg mem ub by blast
qed

lemma list_all_upt: "list_all P (map f [0..<n]) \<longleftrightarrow> (\<forall>j<n. P (f j))"
  by (auto simp: list_all_iff)

lemma violations_all:
  "list_all P (violations xv lbx ubx gv lbg ubg) \<longleftrightarrow>
        (\<forall>j < length xv. P (lbx ! j - xv ! j)) \<and> (\<forall>j < length xv. P (xv ! j - ubx ! j)) \<and>
        (\<forall>j < length gv. P (lbg ! j - gv ! j)) \<and> (\<forall>j < length gv. P (gv ! j - ubg ! j))"
  by (simp add: violations_def list_all_upt)

lemma bounds_hold_alt:
  "bounds_hold xv lbx ubx gv lbg ubg \<longleftrightarrow>
     (\<forall>j < length xv. lbx ! j \<le> xv ! j) \<and> (\<forall>j < length xv. xv ! j \<le> ubx ! j) \<and>
        (\<forall>j < length gv. lbg ! j \<le> gv ! j) \<and> (\<forall>j < length gv. gv ! j \<le> ubg ! j)"
  unfolding bounds_hold_def list_all_upt[of _ "\<lambda>j. j", simplified] by blast

lemma violations_bounds_hold:
  assumes len: "length lbx = length xv" "length ubx = length xv" "length lbg = length gv"
      "length ubg = length gv"
    and nan: "NaN \<notin> set xv \<union> set lbx \<union> set ubx \<union> set gv \<union> set lbg \<union> set ubg"
  shows "list_all (\<lambda>d. \<not> 0 < d) (violations xv lbx ubx gv lbg ubg) \<longleftrightarrow> bounds_hold xv lbx ubx gv lbg ubg"
proof -
  have nx: "xv ! j \<noteq> NaN \<and> lbx ! j \<noteq> NaN \<and> ubx ! j \<noteq> NaN" if "j < length xv" for j
  proof -
    have "xv ! j \<in> set xv" "lbx ! j \<in> set lbx" "ubx ! j \<in> set ubx" using that len by simp_all
    then show ?thesis using nan by auto
  qed
  have ng: "gv ! j \<noteq> NaN \<and> lbg ! j \<noteq> NaN \<and> ubg ! j \<noteq> NaN" if "j < length gv" for j
  proof -
    have "gv ! j \<in> set gv" "lbg ! j \<in> set lbg" "ubg ! j \<in> set ubg" using that len by simp_all
    then show ?thesis using nan by auto
  qed
  have X1: "(\<not> 0 < lbx ! j - xv ! j) = (lbx ! j \<le> xv ! j)" if "j < length xv" for j
    using nx[OF that] by (simp add: diff_double_pos_iff)
  have X2: "(\<not> 0 < xv ! j - ubx ! j) = (xv ! j \<le> ubx ! j)" if "j < length xv" for j
    using nx[OF that] by (simp add: diff_double_pos_iff)
  have G1: "(\<not> 0 < lbg ! j - gv ! j) = (lbg ! j \<le> gv ! j)" if "j < length gv" for j
    using ng[OF that] by (simp add: diff_double_pos_iff)
  have G2: "(\<not> 0 < gv ! j - ubg ! j) = (gv ! j \<le> ubg ! j)" if "j < length gv" for j
    using ng[OF that] by (simp add: diff_double_pos_iff)
  show ?thesis
    unfolding violations_all bounds_hold_alt using X1 X2 G1 G2 by simp
qed

text \<open>
  Claim C8, as the code has it. Over doubles, for a point and constraint values with bound
  vectors of the same lengths: the primal infeasibility is the maximum of zero and of the
  differences \<open>lbx\<^sub>j - x\<^sub>j\<close>, \<open>x\<^sub>j - ubx\<^sub>j\<close>, \<open>lbg\<^sub>j - g\<^sub>j\<close>, \<open>g\<^sub>j - ubg\<^sub>j\<close> that are not
  NaN (\<^verbatim>\<open>std::max\<close> drops a NaN), so it is never negative and never NaN; and when no entry of
  the point, the constraint values and the bounds is NaN (the bounds may be infinite), it
  is zero exactly when every bound and every constraint holds.
\<close>

theorem primalInfeasibility_max_zero_iff_bounds_hold:
  assumes "length lbx = length xv" "length ubx = length xv" "length lbg = length gv"
      "length ubg = length gv"
  shows "is_max0 (primalInfeasibility xv lbx ubx gv lbg ubg) (violations xv lbx ubx gv lbg ubg)
    \<and> (NaN \<notin> set xv \<union> set lbx \<union> set ubx \<union> set gv \<union> set lbg \<union> set ubg \<longrightarrow>
        (primalInfeasibility xv lbx ubx gv lbg ubg = 0 \<longleftrightarrow> bounds_hold xv lbx ubx gv lbg ubg))"
proof (intro conjI impI)
  show m: "is_max0 (primalInfeasibility xv lbx ubx gv lbg ubg) (violations xv lbx ubx gv lbg ubg)"
    by (rule primalInfeasibility_is_max0)
  assume nan: "NaN \<notin> set xv \<union> set lbx \<union> set ubx \<union> set gv \<union> set lbg \<union> set ubg"
  define r where "r = primalInfeasibility xv lbx ubx gv lbg ubg"
  have m': "0 \<le> r" "r = 0 \<or> r \<in> set (violations xv lbx ubx gv lbg ubg)"
    "list_all (\<lambda>d. \<not> r < d) (violations xv lbx ubx gv lbg ubg)"
    using m unfolding r_def is_max0_def by blast+
  have "r = 0 \<longleftrightarrow> list_all (\<lambda>d. \<not> 0 < d) (violations xv lbx ubx gv lbg ubg)"
  proof
    assume "r = 0"
    then show "list_all (\<lambda>d. \<not> 0 < d) (violations xv lbx ubx gv lbg ubg)" using m'(3) by simp
  next
    assume a: "list_all (\<lambda>d. \<not> 0 < d) (violations xv lbx ubx gv lbg ubg)"
    show "r = 0"
    proof (rule disjE[OF m'(2)])
      assume "r \<in> set (violations xv lbx ubx gv lbg ubg)"
      then have "\<not> 0 < r" using a by (simp add: list_all_iff)
      then show "r = 0" using m'(1) by (rule le_double_zero[rotated])
    qed
  qed
  then show "primalInfeasibility xv lbx ubx gv lbg ubg = 0 \<longleftrightarrow> bounds_hold xv lbx ubx gv lbg ubg"
    unfolding r_def using violations_bounds_hold[OF assms nan] by simp
qed

text \<open>The theorem at a point that violates its upper bound by 2 and at a point on the
  bound, with a lower bound of \<open>-\<infinity>\<close> and a constraint without upper bound.\<close>

lemma ex_primalInfeasibility:
  "primalInfeasibility [Finite 3] [NInf] [Finite 1] [Finite 0] [Finite (- 1)] [PInf] = Finite 2"
  "primalInfeasibility [Finite 1] [NInf] [Finite 1] [Finite 0] [Finite (- 1)] [PInf] = 0"
  by (simp_all add: primalInfeasibility_def std_max_def minus_double_def zero_double_def dbl_small
      dbl_zero[unfolded zero_double_def])

theorem primalInfeasibility_max_zero_iff_bounds_hold_witness:
  "primalInfeasibility [Finite 3] [NInf] [Finite 1] [Finite 0] [Finite (- 1)] [PInf] = Finite 2
   \<and> is_max0 (Finite 2) (violations [Finite 3] [NInf] [Finite 1] [Finite 0] [Finite (- 1)] [PInf])
   \<and> \<not> bounds_hold [Finite 3] [NInf] [Finite 1] [Finite 0] [Finite (- 1)] [PInf]
   \<and> primalInfeasibility [Finite 1] [NInf] [Finite 1] [Finite 0] [Finite (- 1)] [PInf] = 0
   \<and> bounds_hold [Finite 1] [NInf] [Finite 1] [Finite 0] [Finite (- 1)] [PInf]"
  using primalInfeasibility_max_zero_iff_bounds_hold[of "[NInf]" "[Finite 3]" "[Finite 1]"
      "[Finite (- 1)]" "[Finite 0]" "[PInf]"]
    primalInfeasibility_max_zero_iff_bounds_hold[of "[NInf]" "[Finite 1]" "[Finite 1]"
      "[Finite (- 1)]" "[Finite 0]" "[PInf]"]
  by (simp add: ex_primalInfeasibility zero_double_def)

text \<open>The claim as stated fails when a constraint value is NaN: the point \<open>x = 0\<close> is
  within its bounds \<open>[-1, 1]\<close>, the constraint value is NaN and lies in no interval, and
  the primal infeasibility is zero.\<close>

theorem primalInfeasibility_NaN_counterexample:
  "primalInfeasibility [Finite 0] [Finite (- 1)] [Finite 1] [NaN] [Finite 0] [Finite 1] = 0
   \<and> \<not> bounds_hold [Finite 0] [Finite (- 1)] [Finite 1] [NaN] [Finite 0] [Finite 1]"
  by (simp add: primalInfeasibility_def bounds_hold_def std_max_def minus_double_def zero_double_def
      less_eq_double_def dbl_small)

subsection \<open>What each part of a pass leaves unchanged\<close>

text \<open>The line-search loop is a partial function; what it returns is described by
  its induction rule for results. It changes the trial point, the trial constraint
  values, the counter, the success flag and the step size, and nothing else.\<close>

lemma line_search_loop_frame_aux:
  "line_search_loop m inp L1dir s = Some y \<Longrightarrow> y = Inr s' \<Longrightarrow>
     s' = s\<lparr>x_cand := x_cand s', gk_cand := gk_cand s', ls_iter := ls_iter s',
                ls_success := ls_success s', t := t s'\<rparr>"
proof (induction arbitrary: s' rule: line_search_loop.raw_induct[rotated 1, consumes 1, case_names step])
  case (step rec m inp L1dir s y)
  note IH = step.IH[OF _ refl]
  show ?case
    using step.prems step.hyps
    by (auto simp: Let_def backtrack_def split: sum.splits if_splits dest!: IH)
qed

lemma line_search_loop_frame:
  assumes "line_search_loop m inp L1dir s = Some (Inr s')"
  shows "s' = s\<lparr>x_cand := x_cand s', gk_cand := gk_cand s', ls_iter := ls_iter s',
                ls_success := ls_success s', t := t s'\<rparr>"
  using assms by (rule line_search_loop_frame_aux) simp

lemma line_search_frame:
  assumes "line_search m inp L1dir s = Some (Inr s')"
  shows "merit_mem s' = merit_mem s \<and> sigma s' = sigma s \<and> qp_DUAL_X s' = qp_DUAL_X s
    \<and> qp_DUAL_A s' = qp_DUAL_A s \<and> outputs s' = outputs s \<and> dx s' = dx s \<and> iter s' = iter s"
proof (cases "max_iter_ls m > 0")
  case True
  with assms obtain s1 where ls: "line_search_loop m inp L1dir s = Some (Inr s1)"
    and s': "s' = s1\<lparr>mu := map (\<lambda>i. t s1 * qp_DUAL_A s1 ! i + (1 - t s1) * mu s1 ! i) [0..<ng m],
                      mu_x := map (\<lambda>i. t s1 * qp_DUAL_X s1 ! i + (1 - t s1) * mu_x s1 ! i) [0..<nx m],
                      x_old := x s1, x := x_cand s1\<rparr>"
    by (auto simp: line_search_def split: option.splits sum.splits)
  have "s1 = s\<lparr>x_cand := x_cand s1, gk_cand := gk_cand s1, ls_iter := ls_iter s1,
                ls_success := ls_success s1, t := t s1\<rparr>"
    using ls by (rule line_search_loop_frame)
  then have "merit_mem s1 = merit_mem s \<and> sigma s1 = sigma s \<and> qp_DUAL_X s1 = qp_DUAL_X s
    \<and> qp_DUAL_A s1 = qp_DUAL_A s \<and> outputs s1 = outputs s \<and> dx s1 = dx s \<and> iter s1 = iter s"
    by (elim ssubst) simp
  then show ?thesis by (simp add: s')
next
  case False
  with assms show ?thesis by (auto simp: line_search_def)
qed

lemma post_phase_frame:
  assumes "post_phase m s = Inr s'"
  shows "s' = s\<lparr>gLag_old := gLag_old s', gk := gk s', Jk := Jk s', fk := fk s', gf := gf s',
                gLag := gLag s', Bk := Bk s', reg := reg s'\<rparr>"
proof (cases "exact_hessian m")
  case True
  with assms show ?thesis
    by (auto simp: post_phase_def Let_def split: sum.splits prod.splits)
next
  case False
  with assms show ?thesis
    by (auto simp: post_phase_def Let_def split: sum.splits prod.splits)
qed

lemma qp_phase_frame:
  assumes "qp_phase m inp s = Inr s'"
  shows "s' = s\<lparr>iter := iter s + 1, dx := dx s', qp_DUAL_X := qp_DUAL_X s', qp_DUAL_A := qp_DUAL_A s'\<rparr>"
  using assms
  by (auto simp: qp_phase_def Let_def split: sum.splits prod.splits)

lemma merit_phase_frame:
  "fst (merit_phase m inp s) = s\<lparr>sigma := sigma (fst (merit_phase m inp s)),
      merit_mem := merit_mem (fst (merit_phase m inp s)), t := 1, ls_iter := 0, ls_success := True\<rparr>"
  by (simp add: merit_phase_def Let_def)

lemma iterationE:
  assumes "iteration m inp s = Some (Inr s')"
  obtains s1 s2 L1dir s3 where "qp_phase m inp s = Inr s1" "merit_phase m inp s1 = (s2, L1dir)"
    "line_search m inp L1dir s2 = Some (Inr s3)" "post_phase m s3 = Inr s'"
  using assms
  by (auto simp: iteration_def split: sum.splits prod.splits option.splits)

lemma loop_head_frame:
  assumes "loop_head m inp s = Inr (s1, r)"
  shows "s1 = s\<lparr>outputs := outputs s1\<rparr>"
  using assms
  by (auto simp: loop_head_def callback_step_def Let_def split: sum.splits option.splits if_splits prod.splits)


lemma loop_head_sigma:
  assumes "loop_head m inp s = Inr (s1, r)"
  shows "sigma s1 = sigma s \<and> merit_mem s1 = merit_mem s"
  by (subst (1 2) loop_head_frame[OF assms]) simp


subsection \<open>The small problem, evaluated\<close>

text \<open>The solve of the small problem takes one iteration: the state before the first
  pass, the pass, and the second head, which reports success. The variants are
  evaluated where they differ.\<close>

lemmas ex_defs = ex_solver_def ex_input_def ex_state_def ex_H_def ex_J_def ex_qpsol_def
  ex_s0_def ex_s1_def

lemmas exv_defs = ex_solver_callback_def ex_callback_def ex_solver_barrier_def ex_nlp_barrier_def
  ex_solver_nomem_def ex_solver_fullstep_def

lemmas eval_defs = eval_f_def eval_g_def eval_jac_g_def eval_grad_f_def eval_h_def solve_QP_def

lemmas num_defs = primalInfeasibility_def std_max_def norm_inf_def inner_prod_def vplus_def vminus_def
  lagrangian_gradient_def casadi_mv_t_def col_els_def meritmax_def

lemma ex_init_solve: "init_solve ex_solver ex_input ex_state = Inr ex_s0"
  by (simp add: init_solve_def ex_defs eval_defs num_defs)

lemma ex_loop_head: "loop_head ex_solver ex_input ex_s0 = Inr (ex_s0, None)"
  by (simp add: loop_head_def callback_step_def convergence_checks_def ex_defs eval_defs num_defs)

lemma ex_iteration: "iteration ex_solver ex_input ex_s0 = Some (Inr ex_s1)"
  apply (simp add: iteration_def qp_phase_def merit_phase_def line_search_def ex_defs eval_defs num_defs)
  apply (subst line_search_loop.simps)
  apply (simp add: post_phase_def ex_defs eval_defs num_defs power2_eq_square)
  done

lemma ex_loop_head2: "loop_head ex_solver ex_input ex_s1 = Inr (ex_s1, Some Solve_Succeeded)"
  by (simp add: loop_head_def callback_step_def convergence_checks_def ex_defs eval_defs num_defs)

lemma ex_evalD:
  "evalD ex_solver ex_input ex_state =
     Some (Inr (ex_s1\<lparr>outputs := \<lparr>out_f = 1 / 4, out_x = [1 / 2], out_lam_g = [], out_lam_x = [1],
                                     out_g = []\<rparr>\<rparr>, Solve_Succeeded))"
  apply (simp add: evalD_def ex_init_solve)
  apply (subst main_loop.simps)
  apply (simp add: ex_loop_head ex_iteration)
  apply (subst main_loop.simps)
  apply (simp add: ex_loop_head2 save_results_def)
  apply (simp add: ex_s1_def ex_state_def)
  done

lemma ex_reachable: "reachable ex_solver ex_input ex_s0 ex_s1"
  using reachable_start ex_loop_head ex_iteration by (rule reachable_pass)


lemma ex_fields:
  "sigma ex_s0 = 0" "sigma ex_s1 = 101 / 100" "qp_DUAL_X ex_s1 = [1]" "qp_DUAL_A ex_s1 = []"
  "merit_mem ex_s0 = []" "merit_mem ex_s1 = [1]" "iter ex_s1 = 1" "outputs ex_s1 = outputs ex_s0"
  "x ex_s0 = [0]" "x ex_s1 = [1 / 2]" "dx ex_s1 = [1 / 2]" "mu_x ex_s1 = [1]" "ls_success ex_s1"
  "fk ex_s0 = 1" "gk ex_s0 = []" "gk ex_s1 = []" "gLag ex_s1 = [0]"
  by (simp_all add: ex_s0_def ex_s1_def ex_state_def)

lemma ex_solver_fields:
  "fcallback ex_solver = None" "merit_memsize ex_solver = 4" "max_iter_ls ex_solver_fullstep = 0"
  "fcallback ex_solver_callback = Some ex_callback" "max_iter_ls ex_solver_barrier = 1"
  "lbfgs_memory ex_solver = 10" "tol_pr ex_solver = 1 / 1000000" "tol_du ex_solver = 1 / 1000000"
  by (simp_all add: ex_solver_def exv_defs)

lemma ex_fullstep_iteration:
  "iteration ex_solver_fullstep ex_input ex_s0 = Some (Inr (ex_s1\<lparr>x_cand := [0], ls_iter := 0\<rparr>))"
  by (simp add: iteration_def qp_phase_def merit_phase_def line_search_def post_phase_def
      exv_defs ex_defs eval_defs num_defs power2_eq_square)


lemma ex_barrier_iteration:
  "iteration ex_solver_barrier ex_input ex_s0 =
     Some (Inr (ex_s1\<lparr>x := [2 / 5], x_cand := [2 / 5], fk := 9 / 25, gf := [- 6 / 5], mu_x := [4 / 5],
                     gLag := [- 2 / 5], ls_iter := 2, t := 4 / 5\<rparr>))"
  apply (simp add: iteration_def qp_phase_def merit_phase_def line_search_def exv_defs ex_defs eval_defs num_defs)
  apply (subst line_search_loop.simps)
  apply (simp add: backtrack_def exv_defs ex_defs eval_defs num_defs)
  apply (subst line_search_loop.simps)
  apply (simp add: post_phase_def exv_defs ex_defs eval_defs num_defs power2_eq_square)
  done

subsection \<open>The order of the convergence checks\<close>

lemma loop_head_checks:
  assumes cb: "callback_step m s = Inr (s1, False)"
  shows "loop_head m inp s =
      Inr (s1, convergence_checks m (iter s)
        (primalInfeasibility (x s) (in_lbx inp) (in_ubx inp) (gk s) (in_lbg inp) (in_ubg inp))
        (norm_inf (gLag s)) (norm_inf (dx s)))"
proof -
  have it: "iter s1 = iter s"
    using cb by (auto simp: callback_step_def Let_def split: option.splits sum.splits)
  show ?thesis
    using cb it by (simp add: loop_head_def Let_def)
qed

lemma loop_head_never_max_iter_when_converged:
  assumes "loop_head m inp s = Inr (s1, st)"
    and "primalInfeasibility (x s) (in_lbx inp) (in_ubx inp) (gk s) (in_lbg inp) (in_ubg inp) < tol_pr m"
    and "norm_inf (gLag s) < tol_du m"
  shows "st = Some Solve_Succeeded \<or> st = Some User_Requested_Stop"
  using assms
  by (auto simp: loop_head_def Let_def convergence_checks_def split: sum.splits prod.splits if_splits)

text \<open>
  Claim C3. In every pass in which the callback (if there is one) does not ask to stop,
  the head of the loop decides in this order: primal and dual infeasibility below their
  tolerances give \<open>Solve_Succeeded\<close>; else \<open>iter \<ge> max_iter\<close> gives
  \<open>Maximum_Iterations_Exceeded\<close>; else \<open>iter > 0\<close> and a step of norm at most
  \<open>min_step_size\<close> give \<open>Search_Direction_Becomes_Too_Small\<close>; else the pass goes on. A
  state that meets the tolerances and has reached \<open>max_iter\<close> makes the main loop
  return with \<open>Solve_Succeeded\<close>; and whatever the callback does, a state that meets
  the tolerances never leaves the loop with \<open>Maximum_Iterations_Exceeded\<close>.
\<close>

theorem convergence_checks_order:
  "(callback_step m s = Inr (s1, False) \<longrightarrow>
      loop_head m inp s =
        Inr (s1,
          if primalInfeasibility (x s) (in_lbx inp) (in_ubx inp) (gk s) (in_lbg inp) (in_ubg inp) < tol_pr m
               \<and> norm_inf (gLag s) < tol_du m
          then Some Solve_Succeeded
          else if iter s \<ge> max_iter m then Some Maximum_Iterations_Exceeded
          else if iter s > 0 \<and> norm_inf (dx s) \<le> min_step_size m
          then Some Search_Direction_Becomes_Too_Small
          else None)
      \<and> (primalInfeasibility (x s) (in_lbx inp) (in_ubx inp) (gk s) (in_lbg inp) (in_ubg inp) < tol_pr m
            \<and> norm_inf (gLag s) < tol_du m \<and> iter s \<ge> max_iter m
          \<longrightarrow> main_loop m inp s = Some (Inr (s1, Solve_Succeeded))))
   \<and> (loop_head m inp s = Inr (s2, st)
        \<and> primalInfeasibility (x s) (in_lbx inp) (in_ubx inp) (gk s) (in_lbg inp) (in_ubg inp) < tol_pr m
        \<and> norm_inf (gLag s) < tol_du m
      \<longrightarrow> st \<noteq> Some Maximum_Iterations_Exceeded)"
proof (intro conjI impI)
  assume cb: "callback_step m s = Inr (s1, False)"
  note lh = loop_head_checks[OF cb, of inp]
  show "loop_head m inp s =
        Inr (s1,
          if primalInfeasibility (x s) (in_lbx inp) (in_ubx inp) (gk s) (in_lbg inp) (in_ubg inp) < tol_pr m
               \<and> norm_inf (gLag s) < tol_du m
          then Some Solve_Succeeded
          else if iter s \<ge> max_iter m then Some Maximum_Iterations_Exceeded
          else if iter s > 0 \<and> norm_inf (dx s) \<le> min_step_size m
          then Some Search_Direction_Becomes_Too_Small
          else None)"
    by (simp add: lh convergence_checks_def)
  assume "primalInfeasibility (x s) (in_lbx inp) (in_ubx inp) (gk s) (in_lbg inp) (in_ubg inp) < tol_pr m
            \<and> norm_inf (gLag s) < tol_du m \<and> iter s \<ge> max_iter m"
  then show "main_loop m inp s = Some (Inr (s1, Solve_Succeeded))"
    by (subst main_loop.simps) (simp add: lh convergence_checks_def)
next
  assume "loop_head m inp s = Inr (s2, st)
        \<and> primalInfeasibility (x s) (in_lbx inp) (in_ubx inp) (gk s) (in_lbg inp) (in_ubg inp) < tol_pr m
        \<and> norm_inf (gLag s) < tol_du m"
  then show "st \<noteq> Some Maximum_Iterations_Exceeded"
    using loop_head_never_max_iter_when_converged[of m inp s s2 st] by auto
qed

theorem convergence_checks_order_witness:
  "callback_step (ex_solver\<lparr>max_iter := 1\<rparr>) ex_s1 = Inr (ex_s1, False)
   \<and> max_iter (ex_solver\<lparr>max_iter := 1\<rparr>) \<le> iter ex_s1
   \<and> loop_head (ex_solver\<lparr>max_iter := 1\<rparr>) ex_input ex_s1 = Inr (ex_s1, Some Solve_Succeeded)
   \<and> main_loop (ex_solver\<lparr>max_iter := 1\<rparr>) ex_input ex_s1 = Some (Inr (ex_s1, Solve_Succeeded))"
proof -
  have cb: "callback_step (ex_solver\<lparr>max_iter := 1\<rparr>) ex_s1 = Inr (ex_s1, False)"
    by (simp add: callback_step_def ex_solver_fields)
  have conv: "primalInfeasibility (x ex_s1) (in_lbx ex_input) (in_ubx ex_input) (gk ex_s1)
        (in_lbg ex_input) (in_ubg ex_input) < tol_pr (ex_solver\<lparr>max_iter := 1\<rparr>)
      \<and> norm_inf (gLag ex_s1) < tol_du (ex_solver\<lparr>max_iter := 1\<rparr>)
      \<and> max_iter (ex_solver\<lparr>max_iter := 1\<rparr>) \<le> iter ex_s1"
    by (simp add: ex_fields ex_solver_fields ex_input_def num_defs)
  show ?thesis
    using convergence_checks_order[where m = "ex_solver\<lparr>max_iter := 1\<rparr>" and s = ex_s1
        and ?s1.0 = ex_s1 and inp = ex_input] cb conv
    by simp
qed

subsection \<open>The penalty parameter\<close>

lemma merit_phase_sigma:
  "sigma (fst (merit_phase m inp s)) =
     max (max (sigma s) (1.01 * norm_inf (qp_DUAL_X s))) (1.01 * norm_inf (qp_DUAL_A s))"
  by (simp add: merit_phase_def Let_def)

lemma iteration_sigma:
  assumes "iteration m inp s = Some (Inr s')"
  shows "sigma s' = max (max (sigma s) (1.01 * norm_inf (qp_DUAL_X s'))) (1.01 * norm_inf (qp_DUAL_A s'))"
proof -
  from assms obtain s1 s2 L1dir s3 where qp: "qp_phase m inp s = Inr s1"
    and mp: "merit_phase m inp s1 = (s2, L1dir)"
    and ls: "line_search m inp L1dir s2 = Some (Inr s3)" and pp: "post_phase m s3 = Inr s'"
    by (rule iterationE)
  have 1: "sigma s1 = sigma s"
    by (subst qp_phase_frame[OF qp]) simp
  have s2: "s2 = fst (merit_phase m inp s1)" using mp by simp
  have 2: "sigma s2 = max (max (sigma s1) (1.01 * norm_inf (qp_DUAL_X s1))) (1.01 * norm_inf (qp_DUAL_A s1))"
    unfolding s2 by (rule merit_phase_sigma)
  have 3: "qp_DUAL_X s2 = qp_DUAL_X s1 \<and> qp_DUAL_A s2 = qp_DUAL_A s1"
    unfolding s2 by (subst (1 2) merit_phase_frame) simp
  have 4: "sigma s3 = sigma s2 \<and> qp_DUAL_X s3 = qp_DUAL_X s2 \<and> qp_DUAL_A s3 = qp_DUAL_A s2"
    using line_search_frame[OF ls] by simp
  have 5: "sigma s' = sigma s3 \<and> qp_DUAL_X s' = qp_DUAL_X s3 \<and> qp_DUAL_A s' = qp_DUAL_A s3"
    by (subst (1 2 3) post_phase_frame[OF pp]) simp
  show ?thesis using 1 2 3 4 5 by simp
qed

lemma reachable_sigma:
  assumes "reachable m inp s0 s"
  shows "sigma s0 \<le> sigma s"
  using assms
proof (induction rule: reachable.induct)
  case reachable_start
  show ?case by simp
next
  case (reachable_pass s s1 s2)
  have "sigma s \<le> sigma s2"
    using iteration_sigma[OF reachable_pass.hyps(3)] loop_head_sigma[OF reachable_pass.hyps(2)]
    by simp
  with reachable_pass.IH show ?case by simp
qed

text \<open>
  Claim C6. Within a solve \<open>sigma\<close> never decreases: every state at the start of a later
  pass has a \<open>sigma\<close> at least as large, for whatever duals the QP solver returns; a pass
  sets it to \<open>max(sigma, 1.01 \<cdot> \<parallel>dual_x\<parallel>\<^sub>\<infinity>, 1.01 \<cdot> \<parallel>dual_a\<parallel>\<^sub>\<infinity>)\<close> for the duals of
  its QP.
\<close>

theorem sigma_nondecreasing:
  "(reachable m inp s0 s \<longrightarrow> sigma s0 \<le> sigma s) \<and>
   (loop_head m inp s = Inr (s1, None) \<and> iteration m inp s1 = Some (Inr s2) \<longrightarrow>
      sigma s2 = max (max (sigma s) (1.01 * norm_inf (qp_DUAL_X s2))) (1.01 * norm_inf (qp_DUAL_A s2))
      \<and> sigma s \<le> sigma s2)"
proof (intro conjI impI)
  assume "reachable m inp s0 s"
  then show "sigma s0 \<le> sigma s" by (rule reachable_sigma)
next
  assume a: "loop_head m inp s = Inr (s1, None) \<and> iteration m inp s1 = Some (Inr s2)"
  then have "sigma s1 = sigma s" using loop_head_sigma by blast
  with a show "sigma s2 = max (max (sigma s) (1.01 * norm_inf (qp_DUAL_X s2))) (1.01 * norm_inf (qp_DUAL_A s2))"
    using iteration_sigma[of m inp s1 s2] by simp
  then show "sigma s \<le> sigma s2" by simp
qed

theorem sigma_nondecreasing_witness:
  "reachable ex_solver ex_input ex_s0 ex_s1
   \<and> loop_head ex_solver ex_input ex_s0 = Inr (ex_s0, None)
   \<and> iteration ex_solver ex_input ex_s0 = Some (Inr ex_s1)
   \<and> sigma ex_s0 \<le> sigma ex_s1
   \<and> sigma ex_s1 = max (max (sigma ex_s0) (1.01 * norm_inf (qp_DUAL_X ex_s1)))
                      (1.01 * norm_inf (qp_DUAL_A ex_s1))"
  using sigma_nondecreasing[where m = ex_solver and inp = ex_input and ?s0.0 = ex_s0 and s = ex_s1]
    sigma_nondecreasing[where m = ex_solver and inp = ex_input and s = ex_s0 and ?s1.0 = ex_s0
      and ?s2.0 = ex_s1]
    ex_reachable ex_loop_head ex_iteration
  by blast

subsection \<open>The merit memory\<close>

lemma merit_phase_mem:
  "merit_mem (fst (merit_phase m inp s)) =
     (let pushed = merit_mem s @ [fk s + sigma (fst (merit_phase m inp s)) *
            primalInfeasibility (x s) (in_lbx inp) (in_ubx inp) (gk s) (in_lbg inp) (in_ubg inp)]
      in if length pushed > merit_memsize m then tl pushed else pushed)"
  by (simp add: merit_phase_def Let_def)

lemma iteration_merit_mem:
  assumes "iteration m inp s = Some (Inr s')"
  shows "merit_mem s' =
     (let pushed = merit_mem s @ [fk s + sigma s' *
            primalInfeasibility (x s) (in_lbx inp) (in_ubx inp) (gk s) (in_lbg inp) (in_ubg inp)]
      in if length pushed > merit_memsize m then tl pushed else pushed)"
proof -
  from assms obtain s1 s2 L1dir s3 where qp: "qp_phase m inp s = Inr s1"
    and mp: "merit_phase m inp s1 = (s2, L1dir)"
    and ls: "line_search m inp L1dir s2 = Some (Inr s3)" and pp: "post_phase m s3 = Inr s'"
    by (rule iterationE)
  have 1: "merit_mem s1 = merit_mem s \<and> fk s1 = fk s \<and> x s1 = x s \<and> gk s1 = gk s"
    by (subst (1 2 3 4) qp_phase_frame[OF qp]) simp
  have s2: "s2 = fst (merit_phase m inp s1)" using mp by simp
  have 4: "sigma s3 = sigma s2 \<and> merit_mem s3 = merit_mem s2"
    using line_search_frame[OF ls] by simp
  have 5: "sigma s' = sigma s3 \<and> merit_mem s' = merit_mem s3"
    by (subst (1 2) post_phase_frame[OF pp]) simp
  have "merit_mem s2 =
     (let pushed = merit_mem s1 @ [fk s1 + sigma s2 *
            primalInfeasibility (x s1) (in_lbx inp) (in_ubx inp) (gk s1) (in_lbg inp) (in_ubg inp)]
      in if length pushed > merit_memsize m then tl pushed else pushed)"
    unfolding s2 by (rule merit_phase_mem)
  then show ?thesis using 1 4 5 by simp
qed

lemma iteration_merit_mem_length:
  assumes "iteration m inp s = Some (Inr s')" "length (merit_mem s) \<le> merit_memsize m"
  shows "length (merit_mem s') \<le> merit_memsize m"
  using iteration_merit_mem[OF assms(1)] assms(2) by (simp add: Let_def)

lemma init_solve_merit_mem:
  assumes "init_solve m inp s = Inr s0"
  shows "merit_mem s0 = []"
  using assms
  by (auto simp: init_solve_def Let_def split: sum.splits prod.splits if_splits)

lemma reachable_merit_mem_length:
  assumes "reachable m inp s0 s" "length (merit_mem s0) \<le> merit_memsize m"
  shows "length (merit_mem s) \<le> merit_memsize m"
  using assms
proof (induction rule: reachable.induct)
  case reachable_start
  then show ?case by simp
next
  case (reachable_pass s s1 s2)
  then have "length (merit_mem s1) \<le> merit_memsize m"
    using loop_head_sigma[OF reachable_pass.hyps(2)] by simp
  with reachable_pass.hyps(3) show ?case by (rule iteration_merit_mem_length)
qed

text \<open>
  Claim C5. At the start of every pass of a solve \<open>merit_mem\<close> holds at most
  \<open>merit_memsize\<close> values. An iteration appends the current L1 merit value; when the
  memory was full, the oldest value (the first) is the one that is dropped, and the
  others keep their order; a memory within the capacity stays within it.
\<close>

theorem merit_mem_bounded_fifo:
  "(init_solve m inp s = Inr s0 \<and> reachable m inp s0 s1 \<longrightarrow> length (merit_mem s1) \<le> merit_memsize m) \<and>
   (iteration m inp s1 = Some (Inr s2) \<longrightarrow>
      (let L1merit = fk s1 + sigma s2 *
             primalInfeasibility (x s1) (in_lbx inp) (in_ubx inp) (gk s1) (in_lbg inp) (in_ubg inp)
       in (length (merit_mem s1) < merit_memsize m \<longrightarrow> merit_mem s2 = merit_mem s1 @ [L1merit]) \<and>
          (length (merit_mem s1) = merit_memsize m \<and> merit_mem s1 \<noteq> [] \<longrightarrow>
             merit_mem s2 = tl (merit_mem s1) @ [L1merit]) \<and>
          (length (merit_mem s1) \<le> merit_memsize m \<longrightarrow> length (merit_mem s2) \<le> merit_memsize m)))"
proof (intro conjI impI)
  assume "init_solve m inp s = Inr s0 \<and> reachable m inp s0 s1"
  then show "length (merit_mem s1) \<le> merit_memsize m"
    using reachable_merit_mem_length[of m inp s0 s1] init_solve_merit_mem[of m inp s s0] by simp
next
  assume it: "iteration m inp s1 = Some (Inr s2)"
  show "let L1merit = fk s1 + sigma s2 *
             primalInfeasibility (x s1) (in_lbx inp) (in_ubx inp) (gk s1) (in_lbg inp) (in_ubg inp)
       in (length (merit_mem s1) < merit_memsize m \<longrightarrow> merit_mem s2 = merit_mem s1 @ [L1merit]) \<and>
          (length (merit_mem s1) = merit_memsize m \<and> merit_mem s1 \<noteq> [] \<longrightarrow>
             merit_mem s2 = tl (merit_mem s1) @ [L1merit]) \<and>
          (length (merit_mem s1) \<le> merit_memsize m \<longrightarrow> length (merit_mem s2) \<le> merit_memsize m)"
    using iteration_merit_mem[OF it] by (auto simp: Let_def)
qed

text \<open>A solve with two passes and a memory of one value: the second pass finds the
  memory full, appends its merit value \<open>9/25\<close> and drops the value \<open>1\<close> of the first
  pass.\<close>

lemmas exm_defs = ex_solver_mem1_def ex_m1_def ex_m2_def

lemma ex_mem1_init: "init_solve ex_solver_mem1 ex_input ex_state = Inr ex_s0"
  by (simp add: init_solve_def exm_defs exv_defs ex_defs eval_defs num_defs power2_eq_square)

lemma ex_mem1_loop_head: "loop_head ex_solver_mem1 ex_input ex_s0 = Inr (ex_s0, None)"
  by (simp add: loop_head_def callback_step_def convergence_checks_def exm_defs exv_defs ex_defs num_defs)

lemma ex_mem1_iteration: "iteration ex_solver_mem1 ex_input ex_s0 = Some (Inr ex_m1)"
  apply (simp add: iteration_def qp_phase_def merit_phase_def line_search_def exm_defs exv_defs ex_defs eval_defs num_defs)
  apply (subst line_search_loop.simps)
  apply (simp add: backtrack_def exv_defs ex_defs eval_defs num_defs)
  apply (subst line_search_loop.simps)
  apply (simp add: post_phase_def exv_defs ex_defs eval_defs num_defs power2_eq_square)
  done

lemma ex_mem1_loop_head2: "loop_head ex_solver_mem1 ex_input ex_m1 = Inr (ex_m1, None)"
  by (simp add: loop_head_def callback_step_def convergence_checks_def exm_defs exv_defs ex_defs num_defs)

lemma ex_mem1_iteration2: "iteration ex_solver_mem1 ex_input ex_m1 = Some (Inr ex_m2)"
  apply (simp add: iteration_def qp_phase_def merit_phase_def line_search_def exm_defs exv_defs ex_defs eval_defs num_defs)
  apply (subst line_search_loop.simps)
  apply (simp add: backtrack_def exv_defs ex_defs eval_defs num_defs)
  apply (subst line_search_loop.simps)
  apply (simp add: post_phase_def exv_defs ex_defs eval_defs num_defs power2_eq_square)
  done

lemma ex_mem1_reachable: "reachable ex_solver_mem1 ex_input ex_s0 ex_m1"
  using reachable_start ex_mem1_loop_head ex_mem1_iteration by (rule reachable_pass)

lemma ex_mem1_reachable2: "reachable ex_solver_mem1 ex_input ex_s0 ex_m2"
  using ex_mem1_reachable ex_mem1_loop_head2 ex_mem1_iteration2 by (rule reachable_pass)

lemma ex_mem1_fields:
  "merit_memsize ex_solver_mem1 = 1" "merit_mem ex_m1 = [1]" "merit_mem ex_m2 = [9 / 25]"
  "fk ex_m1 = 9 / 25" "sigma ex_m2 = 101 / 100" "x ex_m1 = [2 / 5]" "gk ex_m1 = []"
  "in_lbx ex_input = [-10]" "in_ubx ex_input = [1 / 2]" "in_lbg ex_input = []" "in_ubg ex_input = []"
  by (simp_all add: exm_defs exv_defs ex_defs)

theorem merit_mem_bounded_fifo_witness:
  "init_solve ex_solver_mem1 ex_input ex_state = Inr ex_s0
   \<and> reachable ex_solver_mem1 ex_input ex_s0 ex_m1
   \<and> iteration ex_solver_mem1 ex_input ex_m1 = Some (Inr ex_m2)
   \<and> merit_memsize ex_solver_mem1 = 1
   \<and> merit_mem ex_m1 = [1]
   \<and> length (merit_mem ex_m1) = merit_memsize ex_solver_mem1
   \<and> merit_mem ex_m2 =
       tl (merit_mem ex_m1) @
         [fk ex_m1 + sigma ex_m2 *
            primalInfeasibility (x ex_m1) (in_lbx ex_input) (in_ubx ex_input) (gk ex_m1)
              (in_lbg ex_input) (in_ubg ex_input)]
   \<and> merit_mem ex_m2 = [9 / 25]
   \<and> length (merit_mem ex_m2) \<le> merit_memsize ex_solver_mem1"
proof -
  have full: "length (merit_mem ex_m1) = merit_memsize ex_solver_mem1 \<and> merit_mem ex_m1 \<noteq> []"
    by (simp add: ex_mem1_fields)
  have inst: "let L1merit = fk ex_m1 + sigma ex_m2 *
             primalInfeasibility (x ex_m1) (in_lbx ex_input) (in_ubx ex_input) (gk ex_m1)
               (in_lbg ex_input) (in_ubg ex_input)
       in (length (merit_mem ex_m1) < merit_memsize ex_solver_mem1 \<longrightarrow>
             merit_mem ex_m2 = merit_mem ex_m1 @ [L1merit]) \<and>
          (length (merit_mem ex_m1) = merit_memsize ex_solver_mem1 \<and> merit_mem ex_m1 \<noteq> [] \<longrightarrow>
             merit_mem ex_m2 = tl (merit_mem ex_m1) @ [L1merit]) \<and>
          (length (merit_mem ex_m1) \<le> merit_memsize ex_solver_mem1 \<longrightarrow>
             length (merit_mem ex_m2) \<le> merit_memsize ex_solver_mem1)"
    using merit_mem_bounded_fifo[where m = ex_solver_mem1 and inp = ex_input and s = ex_state
        and ?s0.0 = ex_s0 and ?s1.0 = ex_m1 and ?s2.0 = ex_m2] ex_mem1_iteration2
    by blast
  have fifo: "merit_mem ex_m2 =
       tl (merit_mem ex_m1) @
         [fk ex_m1 + sigma ex_m2 *
            primalInfeasibility (x ex_m1) (in_lbx ex_input) (in_ubx ex_input) (gk ex_m1)
              (in_lbg ex_input) (in_ubg ex_input)]"
    using inst full unfolding Let_def by blast
  have bound: "length (merit_mem ex_m2) \<le> merit_memsize ex_solver_mem1"
    using merit_mem_bounded_fifo[where m = ex_solver_mem1 and inp = ex_input and s = ex_state
        and ?s0.0 = ex_s0 and ?s1.0 = ex_m2] ex_mem1_init ex_mem1_reachable2
    by blast
  show ?thesis
    using full fifo bound ex_mem1_init ex_mem1_reachable ex_mem1_iteration2
    by (simp add: ex_mem1_fields)
qed

subsection \<open>The full step\<close>

lemma line_search_disabled:
  assumes "max_iter_ls m = 0"
  shows "line_search m inp L1dir s =
     Some (Inr (s\<lparr>mu := qp_DUAL_A s, mu_x := qp_DUAL_X s, x_old := x s, x := vplus (x s) (dx s)\<rparr>))"
  using assms by (simp add: line_search_def)

text \<open>
  Claim C9. When \<open>max_iter_ls\<close> is zero, no line search is run: the iteration cannot
  hang, the new point is \<open>x + dx\<close> (the step size stays at \<open>t = 1\<close>, no trial is
  counted), the success flag stays set, and \<open>mu\<close> and \<open>mu_x\<close> are the duals
  \<open>dual_a\<close> and \<open>dual_x\<close> of the QP themselves.
\<close>

theorem full_step_when_line_search_disabled:
  assumes "max_iter_ls m = 0"
  shows "line_search m inp L1dir s =
           Some (Inr (s\<lparr>mu := qp_DUAL_A s, mu_x := qp_DUAL_X s, x_old := x s, x := vplus (x s) (dx s)\<rparr>))
    \<and> iteration m inp s \<noteq> None
    \<and> (iteration m inp s = Some (Inr s') \<longrightarrow>
          x s' = vplus (x s) (dx s') \<and> x_old s' = x s \<and> mu s' = qp_DUAL_A s' \<and> mu_x s' = qp_DUAL_X s'
          \<and> ls_success s' \<and> t s' = 1 \<and> ls_iter s' = 0)"
proof -
  have A: "line_search m inp L1dir s =
           Some (Inr (s\<lparr>mu := qp_DUAL_A s, mu_x := qp_DUAL_X s, x_old := x s, x := vplus (x s) (dx s)\<rparr>))"
    using assms by (rule line_search_disabled)
  have B: "iteration m inp s \<noteq> None"
    by (simp add: iteration_def line_search_disabled[OF assms] split: sum.splits prod.splits)
  have C: "x s' = vplus (x s) (dx s') \<and> x_old s' = x s \<and> mu s' = qp_DUAL_A s' \<and> mu_x s' = qp_DUAL_X s'
          \<and> ls_success s' \<and> t s' = 1 \<and> ls_iter s' = 0" if it: "iteration m inp s = Some (Inr s')"
  proof -
  from it obtain s1 s2 L1dir s3 where qp: "qp_phase m inp s = Inr s1"
    and mp: "merit_phase m inp s1 = (s2, L1dir)"
    and ls: "line_search m inp L1dir s2 = Some (Inr s3)" and pp: "post_phase m s3 = Inr s'"
    by (rule iterationE)
  have 1: "x s1 = x s"
    by (subst qp_phase_frame[OF qp]) simp
  have s2: "s2 = fst (merit_phase m inp s1)" using mp by simp
  have 2: "x s2 = x s1 \<and> dx s2 = dx s1 \<and> qp_DUAL_A s2 = qp_DUAL_A s1 \<and> qp_DUAL_X s2 = qp_DUAL_X s1
      \<and> ls_success s2 \<and> t s2 = 1 \<and> ls_iter s2 = 0"
    unfolding s2 by (subst (1 2 3 4 5 6 7) merit_phase_frame) simp
  have s3: "s3 = s2\<lparr>mu := qp_DUAL_A s2, mu_x := qp_DUAL_X s2, x_old := x s2, x := vplus (x s2) (dx s2)\<rparr>"
    using ls line_search_disabled[OF assms, of inp L1dir s2] by simp
  have 3: "x s3 = vplus (x s2) (dx s2) \<and> x_old s3 = x s2 \<and> mu s3 = qp_DUAL_A s2 \<and> mu_x s3 = qp_DUAL_X s2
      \<and> ls_success s3 = ls_success s2 \<and> t s3 = t s2 \<and> ls_iter s3 = ls_iter s2
      \<and> dx s3 = dx s2 \<and> qp_DUAL_A s3 = qp_DUAL_A s2 \<and> qp_DUAL_X s3 = qp_DUAL_X s2"
    by (subst (1 2 3 4 5 6 7 8 9 10) s3) simp
  have 4: "x s' = x s3 \<and> x_old s' = x_old s3 \<and> mu s' = mu s3 \<and> mu_x s' = mu_x s3
      \<and> ls_success s' = ls_success s3 \<and> t s' = t s3 \<and> ls_iter s' = ls_iter s3
      \<and> dx s' = dx s3 \<and> qp_DUAL_A s' = qp_DUAL_A s3 \<and> qp_DUAL_X s' = qp_DUAL_X s3"
    by (subst (1 2 3 4 5 6 7 8 9 10) post_phase_frame[OF pp]) simp
  show ?thesis
    using 1 2 3 4 by simp
  qed
  show ?thesis using A B C by blast
qed

theorem full_step_when_line_search_disabled_witness:
  "max_iter_ls ex_solver_fullstep = 0
   \<and> iteration ex_solver_fullstep ex_input ex_s0 = Some (Inr (ex_s1\<lparr>x_cand := [0], ls_iter := 0\<rparr>))
   \<and> x (ex_s1\<lparr>x_cand := [0], ls_iter := 0\<rparr>) = vplus (x ex_s0) (dx (ex_s1\<lparr>x_cand := [0], ls_iter := 0\<rparr>))
   \<and> mu_x (ex_s1\<lparr>x_cand := [0], ls_iter := 0\<rparr>) = qp_DUAL_X (ex_s1\<lparr>x_cand := [0], ls_iter := 0\<rparr>)
   \<and> ls_success (ex_s1\<lparr>x_cand := [0], ls_iter := 0\<rparr>)"
  using full_step_when_line_search_disabled[where m = ex_solver_fullstep and inp = ex_input
      and s = ex_s0 and s' = "ex_s1\<lparr>x_cand := [0], ls_iter := 0\<rparr>"] ex_fullstep_iteration
    ex_solver_fields(3)
  by blast

subsection \<open>The output buffers\<close>








subsection \<open>The maximum of the merit memory\<close>

text \<open>With a capacity of at least one the memory is not empty when the line search
  takes its maximum: the loop never ends in \<open>EmptyMeritMemory\<close> from a state with a
  non-empty memory, and an iteration never does when \<open>merit_memsize\<close> is positive.\<close>

lemma line_search_loop_nonempty_mem:
  "line_search_loop m inp L1dir s = Some y \<Longrightarrow> merit_mem s \<noteq> [] \<Longrightarrow> y \<noteq> Inl EmptyMeritMemory"
proof (induction rule: line_search_loop.raw_induct[rotated 1, consumes 1, case_names step])
  case (step rec m inp L1dir s y)
  show ?case
    using step.hyps step.prems
    by (auto simp: Let_def backtrack_def meritmax_def split: sum.splits if_splits list.splits dest!: step.IH)
qed

lemma line_search_meritmax_defined:
  assumes "merit_mem s \<noteq> []"
  shows "line_search m inp L1dir s \<noteq> Some (Inl EmptyMeritMemory)"
proof
  assume a: "line_search m inp L1dir s = Some (Inl EmptyMeritMemory)"
  then have "line_search_loop m inp L1dir s = Some (Inl EmptyMeritMemory)"
    by (auto simp: line_search_def split: if_splits option.splits sum.splits)
  then show False using line_search_loop_nonempty_mem[OF _ assms] by blast
qed

lemma iteration_meritmax_defined:
  assumes "merit_memsize m > 0"
  shows "iteration m inp s \<noteq> Some (Inl EmptyMeritMemory)"
proof
  assume a: "iteration m inp s = Some (Inl EmptyMeritMemory)"
  have qp: "qp_phase m inp s \<noteq> Inl EmptyMeritMemory"
    by (auto simp: qp_phase_def Let_def split: sum.splits prod.splits)
  have pp: "post_phase m s3 \<noteq> Inl EmptyMeritMemory" for s3
    by (cases "exact_hessian m")
      (auto simp: post_phase_def bfgs_update_def c_rem_def Let_def
        split: sum.splits prod.splits option.splits if_splits)
  have mem: "merit_mem (fst (merit_phase m inp s1)) \<noteq> []" for s1
    using assms by (cases "merit_mem s1") (auto simp: merit_phase_mem Let_def)
  from a qp pp obtain s1 s2 L1dir where "merit_phase m inp s1 = (s2, L1dir)"
    and "line_search m inp L1dir s2 = Some (Inl EmptyMeritMemory)"
    by (auto simp: iteration_def split: sum.splits prod.splits option.splits)
  then show False using line_search_meritmax_defined[of s2 m inp L1dir] mem[of s1] by simp
qed

text \<open>
  Claim C10, at the input where the code fails it: with \<open>merit_memsize = 0\<close> the value
  pushed before the line search is popped at once, and the first acceptance test takes
  \<^verbatim>\<open>*max_element\<close> of an empty \<^verbatim>\<open>merit_mem_\<close>.
\<close>

theorem meritmax_of_empty_memory:
  "iteration ex_solver_nomem ex_input ex_s0 = Some (Inl EmptyMeritMemory)"
  apply (simp add: iteration_def qp_phase_def merit_phase_def line_search_def exv_defs ex_defs eval_defs num_defs)
  apply (subst line_search_loop.simps)
  apply (simp add: exv_defs ex_defs eval_defs num_defs)
  done

subsection \<open>Failing evaluations in the line search\<close>

text \<open>A trial whose evaluation throws a \<^verbatim>\<open>CasadiException\<close> is counted, the step
  size is multiplied by \<open>beta\<close>, and the loop goes to the next trial; no test of the
  counter stands on this path. So a loop all of whose evaluations fail does not
  return.\<close>

lemma line_search_loop_failed_trial:
  assumes "eval_f m (map (\<lambda>i. x s ! i + t s * dx s ! i) [0..<nx m]) = Inl CasadiException"
  shows "line_search_loop m inp L1dir s =
     line_search_loop m inp L1dir
       (s\<lparr>x_cand := map (\<lambda>i. x s ! i + t s * dx s ! i) [0..<nx m],
          ls_iter := ls_iter s + 1, t := beta m * t s\<rparr>)"
  using assms by (subst line_search_loop.simps) (simp add: backtrack_def)

lemma line_search_loop_diverges_aux:
  "line_search_loop m inp L1dir s = Some y \<Longrightarrow> nlp m = (\<lambda>v. Inl CasadiException) \<Longrightarrow> False"
proof (induction rule: line_search_loop.raw_induct[rotated 1, consumes 1, case_names step])
  case (step rec m inp L1dir s y)
  show ?case
    using step.hyps step.prems
    by (auto simp: Let_def eval_f_def dest!: step.IH)
qed

lemma line_search_loop_diverges:
  "line_search_loop (m\<lparr>nlp := (\<lambda>v. Inl CasadiException)\<rparr>) inp L1dir s = None"
proof (cases "line_search_loop (m\<lparr>nlp := (\<lambda>v. Inl CasadiException)\<rparr>) inp L1dir s")
  case None
  then show ?thesis .
next
  case (Some y)
  then have False by (rule line_search_loop_diverges_aux) simp
  then show ?thesis ..
qed

text \<open>
  Claim C1, at the inputs where the code fails it. A \<^verbatim>\<open>CasadiException\<close> at a trial
  point counts the trial and shrinks \<open>t\<close>, but the \<^verbatim>\<open>continue\<close> skips the test
  \<^verbatim>\<open>ls_iter == max_iter_ls_\<close>: when every evaluation fails the loop never ends, for
  any \<open>max_iter_ls\<close>; and in the barrier variant of the small problem, where one
  line-search iteration is allowed, the first trial fails, a second trial is made and
  accepted, and the iteration ends with \<open>ls_iter = 2\<close> and the success flag set.
\<close>

theorem line_search_exceeds_max_iter_ls:
  "line_search_loop (m\<lparr>nlp := (\<lambda>v. Inl CasadiException)\<rparr>) inp L1dir s = None
   \<and> max_iter_ls ex_solver_barrier = 1
   \<and> iteration ex_solver_barrier ex_input ex_s0 =
       Some (Inr (ex_s1\<lparr>x := [2 / 5], x_cand := [2 / 5], fk := 9 / 25, gf := [- 6 / 5], mu_x := [4 / 5],
                     gLag := [- 2 / 5], ls_iter := 2, t := 4 / 5\<rparr>))
   \<and> ls_success (ex_s1\<lparr>x := [2 / 5], x_cand := [2 / 5], fk := 9 / 25, gf := [- 6 / 5], mu_x := [4 / 5],
                     gLag := [- 2 / 5], ls_iter := 2, t := 4 / 5\<rparr>)"
  using line_search_loop_diverges[of m inp L1dir s] ex_barrier_iteration
  by (simp add: exv_defs ex_defs)

subsection \<open>Well-formed patterns\<close>

text \<open>What a well-formed pattern gives: the columns are disjoint ranges that cover the
  stored values, a row occurs at most once in a column, and an entry of the matrix is a
  stored value or zero.\<close>

lemma ccs_wf_alt:
  "ccs_wf H \<longleftrightarrow>
     length (colind H) = size2 H + 1 \<and> colind H ! 0 = 0 \<and>
     colind H ! size2 H = length (row H) \<and> length (data H) = length (row H) \<and>
     (\<forall>cc < size2 H. colind H ! cc \<le> colind H ! (cc + 1)) \<and>
     (\<forall>cc < size2 H. sorted_wrt (<) (map (\<lambda>el. row H ! el) (col_els H cc))) \<and>
     (\<forall>el < length (row H). row H ! el < size1 H)"
  by (auto simp: ccs_wf_def list_all_iff all_set_conv_all_nth)

lemma has_diag_alt:
  "has_diag H \<longleftrightarrow> (\<forall>cc < size2 H. cc \<in> set (map (\<lambda>el. row H ! el) (col_els H cc)))"
  by (auto simp: has_diag_def list_all_iff)

lemma symmetric_alt:
  "symmetric H \<longleftrightarrow> size1 H = size2 H \<and> (\<forall>i < size2 H. \<forall>j < size2 H. entry H i j = entry H j i)"
  by (auto simp: symmetric_def list_all_iff)

lemma colind_mono:
  assumes "ccs_wf H" "i \<le> j" "j \<le> size2 H"
  shows "colind H ! i \<le> colind H ! j"
  using assms(2,3)
proof (induction j)
  case 0
  then show ?case by simp
next
  case (Suc j)
  show ?case
  proof (cases "i = Suc j")
    case True
    then show ?thesis by simp
  next
    case False
    with Suc.prems have "i \<le> j" "j < size2 H" by simp_all
    then have "colind H ! i \<le> colind H ! j" using Suc.IH by simp
    moreover have "colind H ! j \<le> colind H ! (j + 1)"
      using assms(1) \<open>j < size2 H\<close> by (simp add: ccs_wf_alt)
    ultimately show ?thesis by simp
  qed
qed

lemma col_els_bound:
  assumes "ccs_wf H" "j < size2 H" "el \<in> set (col_els H j)"
  shows "el < length (data H)" "el < length (row H)"
proof -
  have "el < colind H ! (j + 1)" using assms(3) by (simp add: col_els_def)
  also have "\<dots> \<le> colind H ! size2 H"
    using assms(1,2) by (intro colind_mono) simp_all
  also have "\<dots> = length (row H)" using assms(1) by (simp add: ccs_wf_alt)
  finally show "el < length (row H)" .
  then show "el < length (data H)" using assms(1) by (simp add: ccs_wf_alt)
qed

lemma col_els_disjoint:
  assumes "ccs_wf H" "i < size2 H" "j < size2 H" "i \<noteq> j"
    and "el \<in> set (col_els H i)"
  shows "el \<notin> set (col_els H j)"
proof -
  have lt: "el \<notin> set (col_els H b)" if "a < b" "b < size2 H" "el \<in> set (col_els H a)" for a b el
  proof -
    have "el < colind H ! (a + 1)" using that(3) by (simp add: col_els_def)
    also have "\<dots> \<le> colind H ! b"
      using assms(1) that(1,2) by (intro colind_mono) simp_all
    finally show ?thesis by (simp add: col_els_def)
  qed
  show ?thesis
  proof (cases "i < j")
    case True
    then show ?thesis using lt[of i j el] assms by simp
  next
    case False
    with assms(4) have "j < i" by simp
    then show ?thesis using lt[of j i el] assms by blast
  qed
qed

lemma filter_le_one:
  assumes "distinct (map f xs)"
  shows "length (filter (\<lambda>x. f x = k) xs) \<le> 1"
  using assms
proof (induction xs)
  case Nil
  show ?case by simp
next
  case (Cons x xs)
  show ?case
  proof (cases "f x = k")
    case True
    with Cons.prems have "f y \<noteq> k" if "y \<in> set xs" for y
      using that by (metis distinct.simps(2) image_eqI list.simps(9) set_map)
    then have "filter (\<lambda>x. f x = k) xs = []"
      by (simp add: filter_empty_conv)
    with True show ?thesis by simp
  next
    case False
    with Cons show ?thesis by simp
  qed
qed

lemma col_rows_distinct:
  assumes "ccs_wf H" "j < size2 H"
  shows "distinct (map (\<lambda>el. row H ! el) (col_els H j))"
proof -
  have "sorted_wrt (<) (map (\<lambda>el. row H ! el) (col_els H j))"
    using assms by (simp add: ccs_wf_alt)
  then show ?thesis by (simp add: strict_sorted_iff)
qed

lemma entry_stored:
  assumes wf: "ccs_wf H" and j: "j < size2 H" and el: "el \<in> set (col_els H j)"
  shows "entry H (row H ! el) j = data H ! el"
proof -
  let ?els = "filter (\<lambda>e. row H ! e = row H ! el) (col_els H j)"
  have le1: "length ?els \<le> 1"
    using col_rows_distinct[OF wf j] by (rule filter_le_one)
  have "el \<in> set ?els" using el by simp
  then have "?els = [el]" using le1 by (cases ?els) auto
  then show ?thesis by (simp add: entry_def)
qed

lemma entry_absent:
  assumes "\<forall>el \<in> set (col_els H j). row H ! el \<noteq> i"
  shows "entry H i j = 0"
proof -
  have "filter (\<lambda>el. row H ! el = i) (col_els H j) = []"
    using assms by (simp add: filter_empty_conv)
  then show ?thesis by (simp add: entry_def)
qed

lemma entry_cases:
  assumes wf: "ccs_wf H" and j: "j < size2 H"
  obtains (stored) el where "el \<in> set (col_els H j)" "row H ! el = i" "entry H i j = data H ! el"
  | (absent) "\<forall>el \<in> set (col_els H j). row H ! el \<noteq> i" "entry H i j = 0"
proof (cases "\<exists>el \<in> set (col_els H j). row H ! el = i")
  case True
  then obtain el where el: "el \<in> set (col_els H j)" "row H ! el = i" by blast
  then show ?thesis using entry_stored[OF wf j el(1)] stored by simp
next
  case False
  then show ?thesis using entry_absent[of H j i] absent by blast
qed

lemma concat_col_els:
  assumes wf: "ccs_wf H" and k: "k \<le> size2 H"
  shows "concat (map (col_els H) [0..<k]) = [0..<colind H ! k]"
  using k
proof (induction k)
  case 0
  then show ?case using wf by (simp add: ccs_wf_alt)
next
  case (Suc k)
  have le: "colind H ! k \<le> colind H ! Suc k"
    using wf Suc.prems by (intro colind_mono) simp_all
  have IH: "concat (map (col_els H) [0..<k]) = [0..<colind H ! k]"
    using Suc by simp
  have "concat (map (col_els H) [0..<Suc k]) = [0..<colind H ! k] @ [colind H ! k..<colind H ! Suc k]"
    unfolding upt_Suc using IH by (simp add: col_els_def)
  also have "\<dots> = [0..<colind H ! Suc k]"
    using le by (metis le0 upt_add_eq_append le_add_diff_inverse)
  finally show ?case .
qed

lemma concat_col_els_all:
  assumes wf: "ccs_wf H"
  shows "concat (map (col_els H) [0..<size2 H]) = [0..<length (data H)]"
  using concat_col_els[OF wf order_refl] wf by (simp add: ccs_wf_alt)

lemma entry_finite:
  assumes wf: "ccs_wf H" and fin: "finite_matrix H" and j: "j < size2 H"
  shows "is_finite (entry H i j)"
proof (cases rule: entry_cases[OF wf j, of i])
  case (1 el)
  have "el < length (data H)" using wf j 1(1) by (rule col_els_bound)
  then have "data H ! el \<in> set (data H)" by simp
  then show ?thesis using fin 1(3) by (simp add: finite_matrix_def list_all_iff)
next
  case 2
  then show ?thesis by (simp add: zero_double_def)
qed

lemma col_rows_bound:
  assumes wf: "ccs_wf H" and i: "i < size2 H"
  shows "\<forall>el \<in> set (col_els H i). row H ! el < size1 H"
  using wf col_els_bound(2)[OF wf i] by (auto simp: ccs_wf_alt)

lemma col_finite:
  assumes wf: "ccs_wf H" and fin: "finite_matrix H" and i: "i < size2 H"
  shows "\<forall>el \<in> set (col_els H i). is_finite (data H ! el)"
proof
  fix el assume "el \<in> set (col_els H i)"
  then have "el < length (data H)" using wf i by (intro col_els_bound(1))
  then have "data H ! el \<in> set (data H)" by simp
  then show "is_finite (data H ! el)" using fin by (simp add: finite_matrix_def list_all_iff)
qed

subsection \<open>The BFGS update without movement\<close>

text \<open>With \<open>x = x_old\<close> and finite values, \<open>sk\<close> and \<open>qk\<close> are zero, \<open>phi\<close> is
  \<open>1 / 0 = \<infinity>\<close>, and every entry of the result has the term \<open>\<infinity> \<cdot> 0\<close>, a NaN.\<close>

lemma vminus_self: "list_all is_finite v \<Longrightarrow> vminus v v = replicate (length v) (0 :: double)"
  by (induction v) (simp_all add: vminus_def minus_double_self)

lemma inner_prod_zero_left:
  "list_all is_finite w \<Longrightarrow> inner_prod (replicate n 0) w = (0 :: double)"
proof -
  have "list_all is_finite w \<Longrightarrow>
      fold (\<lambda>(p, q) r. r + p * q) (zip (replicate n 0) w) (0 :: double) = 0"
  proof (induction n arbitrary: w)
    case 0
    show ?case by simp
  next
    case (Suc n)
    then show ?case by (cases w) (simp_all add: times_zero_left plus_zero_zero)
  qed
  then show "list_all is_finite w \<Longrightarrow> inner_prod (replicate n 0) w = (0 :: double)"
    by (simp add: inner_prod_def)
qed

lemma inner_prod_zero_right:
  "list_all is_finite w \<Longrightarrow> inner_prod w (replicate n 0) = (0 :: double)"
proof -
  have "list_all is_finite w \<Longrightarrow>
      fold (\<lambda>(p, q) r. r + p * q) (zip w (replicate n 0)) (0 :: double) = 0"
  proof (induction n arbitrary: w)
    case 0
    show ?case by simp
  next
    case (Suc n)
    then show ?case by (cases w) (simp_all add: times_zero_right plus_zero_zero)
  qed
  then show "list_all is_finite w \<Longrightarrow> inner_prod w (replicate n 0) = (0 :: double)"
    by (simp add: inner_prod_def)
qed

lemma mul_mv_zero:
  "list_all (list_all is_finite) B \<Longrightarrow> mul_mv B (replicate n 0) = replicate (length B) (0 :: double)"
  by (induction B) (simp_all add: mul_mv_def inner_prod_zero_right)

lemma bfgs_no_movement:
  assumes xv: "list_all is_finite xv" and B: "list_all (list_all is_finite) B"
    and len: "length xv \<le> length B"
  shows "bfgs B xv xv gLagv gLagv_old = replicate (length xv) (replicate (length xv) NaN)"
proof -
  define n where "n = length xv"
  have sk: "vminus xv xv = replicate n 0" unfolding n_def using xv by (rule vminus_self)
  have qk: "mul_mv B (replicate n 0) = replicate (length B) (0 :: double)" using B by (rule mul_mv_zero)
  have z: "list_all is_finite (replicate k (0 :: double))" for k
    by (simp add: list_all_iff zero_double_def)
  have den: "inner_prod (replicate (length B) 0) (replicate n (0 :: double)) = 0"
    using z by (rule inner_prod_zero_left)
  have e: "a - 1 / (0::double) * (replicate (length B) 0 ! i * replicate (length B) 0 ! j) = NaN"
    if "i < n" "j < n" for a i j
    using that len by (simp add: n_def one_div_zero PInf_times_zero minus_NaN_right)
  have "bfgs B xv xv gLagv gLagv_old = map (\<lambda>i. map (\<lambda>j. NaN) [0..<n]) [0..<n]"
    unfolding bfgs_def Let_def sk qk den n_def[symmetric]
    by (intro map_cong refl) (simp add: e)
  also have "\<dots> = replicate n (replicate n NaN)"
    by (simp add: map_replicate_const)
  finally show ?thesis by (simp add: n_def)
qed

text \<open>In the main loop: the restart keeps the pattern and the finite values, the dense
  view of a finite matrix is finite, \<^verbatim>\<open>getOutput\<close> stores the NaN at every position of
  the pattern, and the iteration makes this matrix \<^verbatim>\<open>Bk_\<close>.\<close>

lemma fold_reset_length:
  "length (fold (\<lambda>el d. if P el then d[el := z] else d) els d0) = length d0"
  by (induction els arbitrary: d0) simp_all

lemma fold_reset_finite:
  "is_finite z \<Longrightarrow> list_all is_finite d0 \<Longrightarrow>
     list_all is_finite (fold (\<lambda>el d. if P el then d[el := z] else d) els d0)"
proof (induction els arbitrary: d0)
  case Nil
  then show ?case by simp
next
  case (Cons e els)
  have "list_all is_finite (d0[e := z])"
    using Cons.prems set_update_subset_insert[of d0 e z] by (auto simp: list_all_iff)
  then show ?case using Cons by simp
qed

lemma reset_offdiag_data:
  "length (data (reset_offdiag H)) = length (data H)"
  "finite_matrix H \<Longrightarrow> finite_matrix (reset_offdiag H)"
proof -
  have A: "length (fold (\<lambda>cc d. fold (\<lambda>el d. if cc \<noteq> row H ! el then d[el := 0] else d) (col_els H cc) d) ccs d0)
      = length d0" for ccs d0
    by (induction ccs arbitrary: d0) (simp_all add: fold_reset_length)
  have B: "list_all is_finite d0 \<Longrightarrow>
     list_all is_finite (fold (\<lambda>cc d. fold (\<lambda>el d. if cc \<noteq> row H ! el then d[el := 0] else d) (col_els H cc) d) ccs d0)" for ccs d0
    by (induction ccs arbitrary: d0) (simp_all add: fold_reset_finite zero_double_def)
  show "length (data (reset_offdiag H)) = length (data H)" by (simp add: reset_offdiag_def A)
  show "finite_matrix H \<Longrightarrow> finite_matrix (reset_offdiag H)"
    by (simp add: reset_offdiag_def finite_matrix_def B)
qed

lemma reset_offdiag_pattern:
  "size1 (reset_offdiag H) = size1 H" "size2 (reset_offdiag H) = size2 H"
  "colind (reset_offdiag H) = colind H" "row (reset_offdiag H) = row H"
  by (simp_all add: reset_offdiag_def)

lemma reset_offdiag_wf: "ccs_wf H \<Longrightarrow> ccs_wf (reset_offdiag H)"
  by (simp add: ccs_wf_def reset_offdiag_pattern reset_offdiag_data col_els_def)

lemma to_dense_finite:
  assumes "ccs_wf H" "finite_matrix H"
  shows "list_all (list_all is_finite) (to_dense H)"
  using entry_finite[OF assms] by (simp add: to_dense_def list_all_iff)

lemma getOutput_dense_NaN:
  assumes wf: "ccs_wf H" and n1: "size1 H \<le> n" and n2: "size2 H \<le> n"
  shows "getOutput_dense (replicate n (replicate n NaN)) H = H\<lparr>data := replicate (length (data H)) NaN\<rparr>"
proof -
  have "map (\<lambda>el. replicate n (replicate n NaN) ! (row H ! el) ! cc) (col_els H cc)
      = map (\<lambda>el. NaN) (col_els H cc)" if cc: "cc < size2 H" for cc
  proof (intro map_cong refl)
    fix el assume el: "el \<in> set (col_els H cc)"
    have "el < length (row H)" using wf cc el by (rule col_els_bound)
    then have "row H ! el < size1 H" using wf by (simp add: ccs_wf_alt)
    then show "replicate n (replicate n NaN) ! (row H ! el) ! cc = NaN"
      using n1 n2 cc by simp
  qed
  then have "concat (map (\<lambda>cc. map (\<lambda>el. replicate n (replicate n NaN) ! (row H ! el) ! cc) (col_els H cc)) [0..<size2 H])
      = concat (map (\<lambda>cc. map (\<lambda>el. NaN) (col_els H cc)) [0..<size2 H])"
    by (intro arg_cong[where f = concat] map_cong) simp_all
  also have "\<dots> = map (\<lambda>el. NaN) (concat (map (col_els H) [0..<size2 H]))"
    by (simp add: map_concat comp_def)
  also have "\<dots> = replicate (length (data H)) NaN"
    by (simp add: concat_col_els_all[OF wf] map_replicate_const)
  finally show ?thesis by (simp add: getOutput_dense_def)
qed

lemma bfgs_update_no_movement:
  assumes same: "x_old s = x s" and mem: "lbfgs_memory m \<noteq> 0"
    and wf: "ccs_wf (Bk s)" and fin: "finite_matrix (Bk s)"
    and n1: "size1 (Bk s) = length (x s)" and n2: "size2 (Bk s) = length (x s)"
  shows "bfgs_update m s = Inr ((Bk s)\<lparr>data := replicate (length (data (Bk s))) NaN\<rparr>)"
proof -
  define B where "B = (if sgn (iter s) * (\<bar>iter s\<bar> mod \<bar>lbfgs_memory m\<bar>) = 0 then reset_offdiag (Bk s) else Bk s)"
  have Bwf: "ccs_wf B"
    using wf by (simp add: B_def reset_offdiag_wf)
  have Bfin: "finite_matrix B"
    using fin by (simp add: B_def reset_offdiag_data)
  have Bpat: "size1 B = length (x s)" "size2 B = length (x s)" "length (data B) = length (data (Bk s))"
    using n1 n2 by (simp_all add: B_def reset_offdiag_data reset_offdiag_pattern)
  have Bupd: "B\<lparr>data := d\<rparr> = (Bk s)\<lparr>data := d\<rparr>" for d
    by (simp add: B_def reset_offdiag_def)
  have xs: "list_all is_finite (map Finite (x s))" by (simp add: list_all_iff)
  have len: "length (map Finite (x s)) \<le> length (to_dense B)" by (simp add: to_dense_def Bpat)
  have "bfgs (to_dense B) (map Finite (x s)) (map Finite (x_old s)) (map Finite (gLag s)) (map Finite (gLag_old s))
      = replicate (length (x s)) (replicate (length (x s)) NaN)"
    unfolding same using bfgs_no_movement[OF xs to_dense_finite[OF Bwf Bfin] len] by simp
  moreover have "getOutput_dense (replicate (length (x s)) (replicate (length (x s)) NaN)) B
      = B\<lparr>data := replicate (length (data B)) NaN\<rparr>"
    by (rule getOutput_dense_NaN[OF Bwf]) (simp_all add: Bpat)
  ultimately have out: "getOutput_dense
        (bfgs (to_dense B) (map Finite (x s)) (map Finite (x_old s)) (map Finite (gLag s))
           (map Finite (gLag_old s))) B
      = (Bk s)\<lparr>data := replicate (length (data (Bk s))) NaN\<rparr>"
    by (simp add: Bpat Bupd)
  have rem: "c_rem (iter s) (lbfgs_memory m) = Inr (sgn (iter s) * (\<bar>iter s\<bar> mod \<bar>lbfgs_memory m\<bar>))"
    using mem by (simp add: c_rem_def)
  have "bfgs_update m s = Inr (getOutput_dense
        (bfgs (to_dense B) (map Finite (x s)) (map Finite (x_old s)) (map Finite (gLag s))
           (map Finite (gLag_old s))) B)"
    unfolding bfgs_update_def rem B_def Let_def by (simp only: sum.case)
  then show ?thesis by (simp only: out)
qed

lemma line_search_Bk:
  assumes "line_search m inp L1dir s = Some (Inr s')"
  shows "Bk s' = Bk s"
proof (cases "max_iter_ls m > 0")
  case True
  with assms obtain s1 where ls: "line_search_loop m inp L1dir s = Some (Inr s1)"
    and s': "Bk s' = Bk s1"
    by (auto simp: line_search_def split: option.splits sum.splits)
  have "s1 = s\<lparr>x_cand := x_cand s1, gk_cand := gk_cand s1, ls_iter := ls_iter s1,
                ls_success := ls_success s1, t := t s1\<rparr>"
    using ls by (rule line_search_loop_frame)
  then have "Bk s1 = Bk s" by (elim ssubst) simp
  then show ?thesis by (simp add: s')
next
  case False
  with assms show ?thesis by (auto simp: line_search_def)
qed

lemma post_phase_bfgs:
  assumes post: "post_phase m s = Inr s'" and bf: "\<not> exact_hessian m"
  shows "x s' = x s \<and> x_old s' = x_old s \<and> bfgs_update m (s'\<lparr>Bk := Bk s\<rparr>) = Inr (Bk s')"
  using assms
  by (auto simp: post_phase_def Let_def split: sum.splits prod.splits)

lemma iteration_bfgs_no_movement:
  assumes it: "iteration m inp s = Some (Inr s')" and bf: "\<not> exact_hessian m"
    and same: "x_old s' = x s'"
    and wf: "ccs_wf (Bk s)" and fin: "finite_matrix (Bk s)"
    and n1: "size1 (Bk s) = length (x s')" and n2: "size2 (Bk s) = length (x s')"
  shows "Bk s' = (Bk s)\<lparr>data := replicate (length (data (Bk s))) NaN\<rparr>"
proof -
  from it obtain s1 s2 L1dir s3 where qp: "qp_phase m inp s = Inr s1"
    and mp: "merit_phase m inp s1 = (s2, L1dir)"
    and ls: "line_search m inp L1dir s2 = Some (Inr s3)" and post: "post_phase m s3 = Inr s'"
    by (rule iterationE)
  have "Bk s1 = Bk s" by (subst qp_phase_frame[OF qp]) simp
  moreover have "Bk s2 = Bk s1" using mp by (auto simp: merit_phase_def Let_def)
  moreover have "Bk s3 = Bk s2" using ls by (rule line_search_Bk)
  ultimately have B3: "Bk s3 = Bk s" by simp
  define s4 where "s4 = s'\<lparr>Bk := Bk s3\<rparr>"
  have s4: "x s4 = x s3" "x_old s4 = x_old s3"
    "Bk s4 = Bk s3" "bfgs_update m s4 = Inr (Bk s')" "x s' = x s3" "x_old s' = x_old s3"
    using post_phase_bfgs[OF post bf] by (simp_all add: s4_def)
  have mem: "lbfgs_memory m \<noteq> 0"
    using s4(4) by (auto simp: bfgs_update_def c_rem_def split: if_splits)
  have "bfgs_update m s4 = Inr ((Bk s4)\<lparr>data := replicate (length (data (Bk s4))) NaN\<rparr>)"
    using same wf fin n1 n2 s4 B3 mem by (intro bfgs_update_no_movement) simp_all
  then show ?thesis using s4 B3 by simp
qed

text \<open>A solve that meets the case: the BFGS variant of the small problem, started at
  the solution with a zero multiplier guess. The first pass does not stop (the
  Lagrangian gradient is not yet zero), the QP step is zero, the line search accepts
  it, the BFGS update is evaluated with \<open>x = x_old\<close> and stores a NaN; the head of the
  second pass finds the problem solved, and the solve returns \<open>Solve_Succeeded\<close> with a
  Hessian approximation that is NaN.\<close>

lemmas exb_defs = ex_solver_bfgs_def ex_input_bound_def ex_b0_def ex_b1_def ex_b2_def ex_NaN_def

lemma ex_bfgs_init: "init_solve ex_solver_bfgs ex_input_bound ex_state = Inr ex_b0"
  by (simp add: init_solve_def reset_h_def exb_defs ex_defs eval_defs num_defs power2_eq_square
      one_double_def)

lemma ex_bfgs_loop_head: "loop_head ex_solver_bfgs ex_input_bound ex_b0 = Inr (ex_b0, None)"
  by (simp add: loop_head_def callback_step_def convergence_checks_def exb_defs ex_defs eval_defs num_defs)

lemma ex_H_wf: "ccs_wf (ex_H h)" "finite_matrix (ex_H h)"
  by (simp_all add: ccs_wf_def finite_matrix_def ex_H_def col_els_def)

lemma ex_bfgs_update: "bfgs_update ex_solver_bfgs ex_b1 = Inr ex_NaN"
proof -
  have "bfgs_update ex_solver_bfgs ex_b1
      = Inr ((Bk ex_b1)\<lparr>data := replicate (length (data (Bk ex_b1))) NaN\<rparr>)"
    by (rule bfgs_update_no_movement) (simp_all add: exb_defs ex_defs ccs_wf_def finite_matrix_def col_els_def)
  then show ?thesis by (simp add: exb_defs ex_defs)
qed

lemma ex_bfgs_iteration:
  "iteration ex_solver_bfgs ex_input_bound ex_b0 = Some (Inr ex_b2)"
  apply (simp add: iteration_def qp_phase_def merit_phase_def line_search_def exb_defs ex_defs
      eval_defs num_defs)
  apply (subst line_search_loop.simps)
  apply (simp add: post_phase_def Let_def exb_defs ex_defs eval_defs num_defs power2_eq_square)
  apply (subst bfgs_update_no_movement)
  apply (simp_all add: ccs_wf_def finite_matrix_def col_els_def)
  done

lemma ex_bfgs_loop_head2:
  "loop_head ex_solver_bfgs ex_input_bound ex_b2 = Inr (ex_b2, Some Solve_Succeeded)"
  by (simp add: loop_head_def callback_step_def convergence_checks_def exb_defs ex_defs eval_defs num_defs)

lemma ex_bfgs_evalD:
  "evalD ex_solver_bfgs ex_input_bound ex_state = Some (Inr (save_results ex_b2, Solve_Succeeded))"
  apply (simp add: evalD_def ex_bfgs_init)
  apply (subst main_loop.simps)
  apply (simp add: ex_bfgs_loop_head ex_bfgs_iteration)
  apply (subst main_loop.simps)
  apply (simp add: ex_bfgs_loop_head2)
  done

text \<open>
  Claim C2, as the code has it. The update function has no special case for
  \<open>sk = x - x_old = 0\<close>: for finite values the denominators \<open>\<langle>sk, yk\<rangle>\<close> and \<open>\<langle>qk, sk\<rangle>\<close> are
  zero, \<open>phi = 1 / \<langle>qk, sk\<rangle>\<close> is infinite, and every entry of the new approximation is NaN;
  an iteration of the main loop that does not move the point stores this matrix, NaN at
  every position of the pattern, as the Hessian approximation and the loop goes on with
  it.
\<close>

theorem bfgs_no_movement_not_special_cased:
  "(list_all is_finite xv \<and> list_all is_finite w \<longrightarrow> inner_prod (vminus xv xv) w = 0)
   \<and> (list_all is_finite xv \<and> list_all (list_all is_finite) B \<and> length xv \<le> length B \<longrightarrow>
         inner_prod (mul_mv B (vminus xv xv)) (vminus xv xv) = 0
       \<and> 1 / inner_prod (mul_mv B (vminus xv xv)) (vminus xv xv) = PInf
       \<and> bfgs B xv xv gLagv gLagv_old = replicate (length xv) (replicate (length xv) NaN))
   \<and> (iteration m inp s = Some (Inr s') \<and> \<not> exact_hessian m \<and> x_old s' = x s'
        \<and> ccs_wf (Bk s) \<and> finite_matrix (Bk s)
        \<and> size1 (Bk s) = length (x s') \<and> size2 (Bk s) = length (x s') \<longrightarrow>
         Bk s' = (Bk s)\<lparr>data := replicate (length (data (Bk s))) NaN\<rparr>)"
proof (intro conjI impI)
  assume "list_all is_finite xv \<and> list_all is_finite w"
  then show "inner_prod (vminus xv xv) w = 0"
    by (simp add: vminus_self inner_prod_zero_left)
next
  assume a: "list_all is_finite xv \<and> list_all (list_all is_finite) B \<and> length xv \<le> length B"
  have z: "list_all is_finite (replicate k (0 :: double))" for k
    by (simp add: list_all_iff zero_double_def)
  show d: "inner_prod (mul_mv B (vminus xv xv)) (vminus xv xv) = 0"
    using a z by (simp add: vminus_self mul_mv_zero inner_prod_zero_left)
  show "1 / inner_prod (mul_mv B (vminus xv xv)) (vminus xv xv) = PInf"
    unfolding d by (rule one_div_zero)
  show "bfgs B xv xv gLagv gLagv_old = replicate (length xv) (replicate (length xv) NaN)"
    using a by (intro bfgs_no_movement) simp_all
next
  assume "iteration m inp s = Some (Inr s') \<and> \<not> exact_hessian m \<and> x_old s' = x s'
        \<and> ccs_wf (Bk s) \<and> finite_matrix (Bk s)
        \<and> size1 (Bk s) = length (x s') \<and> size2 (Bk s) = length (x s')"
  then show "Bk s' = (Bk s)\<lparr>data := replicate (length (data (Bk s))) NaN\<rparr>"
    by (intro iteration_bfgs_no_movement[of m inp s s']) simp_all
qed

theorem bfgs_no_movement_not_special_cased_witness:
  "init_solve ex_solver_bfgs ex_input_bound ex_state = Inr ex_b0
   \<and> loop_head ex_solver_bfgs ex_input_bound ex_b0 = Inr (ex_b0, None)
   \<and> iteration ex_solver_bfgs ex_input_bound ex_b0 = Some (Inr ex_b2)
   \<and> \<not> exact_hessian ex_solver_bfgs \<and> x_old ex_b2 = x ex_b2
   \<and> ccs_wf (Bk ex_b0) \<and> finite_matrix (Bk ex_b0)
   \<and> size1 (Bk ex_b0) = length (x ex_b2) \<and> size2 (Bk ex_b0) = length (x ex_b2)
   \<and> Bk ex_b2 = (Bk ex_b0)\<lparr>data := replicate (length (data (Bk ex_b0))) NaN\<rparr>
   \<and> data (Bk ex_b2) = [NaN]
   \<and> 1 / inner_prod (mul_mv [[Finite 1]] (vminus [Finite (1 / 2)] [Finite (1 / 2)]))
            (vminus [Finite (1 / 2)] [Finite (1 / 2)]) = PInf
   \<and> bfgs [[Finite 1]] [Finite (1 / 2)] [Finite (1 / 2)] [Finite 0] [Finite 0] = [[NaN]]
   \<and> evalD ex_solver_bfgs ex_input_bound ex_state = Some (Inr (save_results ex_b2, Solve_Succeeded))"
proof -
  have h: "\<not> exact_hessian ex_solver_bfgs \<and> x_old ex_b2 = x ex_b2
      \<and> ccs_wf (Bk ex_b0) \<and> finite_matrix (Bk ex_b0)
      \<and> size1 (Bk ex_b0) = length (x ex_b2) \<and> size2 (Bk ex_b0) = length (x ex_b2)"
    by (simp add: exb_defs ex_defs ccs_wf_def finite_matrix_def col_els_def)
  have f: "list_all is_finite [Finite (1 / 2)] \<and> list_all (list_all is_finite) [[Finite 1]]
      \<and> length [Finite (1 / 2)] \<le> length [[Finite 1 :: double]]"
    by simp
  note inst = bfgs_no_movement_not_special_cased[where m = ex_solver_bfgs and inp = ex_input_bound
      and s = ex_b0 and s' = ex_b2 and xv = "[Finite (1 / 2)]" and B = "[[Finite 1]]"
      and gLagv = "[Finite 0]" and gLagv_old = "[Finite 0]"]
  have stored: "Bk ex_b2 = (Bk ex_b0)\<lparr>data := replicate (length (data (Bk ex_b0))) NaN\<rparr>"
    using inst h ex_bfgs_iteration by blast
  have fn: "1 / inner_prod (mul_mv [[Finite 1]] (vminus [Finite (1 / 2)] [Finite (1 / 2)]))
            (vminus [Finite (1 / 2)] [Finite (1 / 2)]) = PInf
     \<and> bfgs [[Finite 1]] [Finite (1 / 2)] [Finite (1 / 2)] [Finite 0] [Finite 0]
         = replicate (length [Finite (1 / 2) :: double]) (replicate (length [Finite (1 / 2) :: double]) NaN)"
    using inst f by blast
  have d: "data (Bk ex_b2) = [NaN]" by (simp add: exb_defs)
  show ?thesis
    using h stored fn d ex_bfgs_init ex_bfgs_loop_head ex_bfgs_iteration ex_bfgs_evalD by simp
qed

text \<open>The claim as stated fails in that solve: the point does not move in the first
  pass (and the Lagrangian gradient is the same at both ends of the step), and the
  Hessian approximation, the identity before the pass, is a NaN after it.\<close>

theorem bfgs_skip_counterexample:
  "init_solve ex_solver_bfgs ex_input_bound ex_state = Inr ex_b0
   \<and> loop_head ex_solver_bfgs ex_input_bound ex_b0 = Inr (ex_b0, None)
   \<and> iteration ex_solver_bfgs ex_input_bound ex_b0 = Some (Inr ex_b2)
   \<and> x ex_b2 = x_old ex_b2 \<and> gLag ex_b2 = gLag_old ex_b2
   \<and> data (Bk ex_b0) = [Finite 1] \<and> data (Bk ex_b2) = [NaN] \<and> Bk ex_b2 \<noteq> Bk ex_b0"
  using ex_bfgs_init ex_bfgs_loop_head ex_bfgs_iteration
  by (simp add: exb_defs ex_defs)

subsection \<open>The Gershgorin regularisation\<close>

text \<open>The loop of \<^verbatim>\<open>regularize\<close>, read as a pointwise change of the stored values, and
  the entries of the shifted matrix.\<close>

lemma fold_update_nth:
  fixes d0 :: "double list"
  assumes "distinct els" "k < length d0"
  shows "fold (\<lambda>el d. if P el then d[el := d ! el + r] else d) els d0 ! k
          = (if k \<in> set els \<and> P k then d0 ! k + r else d0 ! k)"
  using assms
proof (induction els arbitrary: d0)
  case Nil
  show ?case by simp
next
  case (Cons e els)
  let ?d1 = "if P e then d0[e := d0 ! e + r] else d0"
  have len: "k < length ?d1" using Cons.prems by simp
  have "fold (\<lambda>el d. if P el then d[el := d ! el + r] else d) (e # els) d0 ! k
      = fold (\<lambda>el d. if P el then d[el := d ! el + r] else d) els ?d1 ! k" by simp
  also have "\<dots> = (if k \<in> set els \<and> P k then ?d1 ! k + r else ?d1 ! k)"
    using Cons.IH[OF _ len] Cons.prems by simp
  also have "\<dots> = (if k \<in> set (e # els) \<and> P k then d0 ! k + r else d0 ! k)"
  proof (cases "k = e")
    case True
    with Cons.prems show ?thesis by simp
  next
    case False
    then show ?thesis by simp
  qed
  finally show ?case .
qed

lemma fold_update_length:
  "length (fold (\<lambda>el d. if P el then d[el := d ! el + r] else d) els d0) = length d0"
  by (induction els arbitrary: d0) simp_all

lemma regularize_data_aux:
  fixes d0 :: "double list"
  assumes "distinct ccs" "k < length d0"
  shows "length (fold (\<lambda>cc d. fold (\<lambda>el d. if row H ! el = cc then d[el := d ! el + r] else d)
                                (col_els H cc) d) ccs d0) = length d0
       \<and> fold (\<lambda>cc d. fold (\<lambda>el d. if row H ! el = cc then d[el := d ! el + r] else d)
                                (col_els H cc) d) ccs d0 ! k
          = (if row H ! k \<in> set ccs \<and> k \<in> set (col_els H (row H ! k)) then d0 ! k + r else d0 ! k)"
  using assms
proof (induction ccs arbitrary: d0)
  case Nil
  show ?case by simp
next
  case (Cons c ccs)
  let ?d1 = "fold (\<lambda>el d. if row H ! el = c then d[el := d ! el + r] else d) (col_els H c) d0"
  have len1: "length ?d1 = length d0" by (rule fold_update_length)
  have k1: "?d1 ! k = (if k \<in> set (col_els H c) \<and> row H ! k = c then d0 ! k + r else d0 ! k)"
    using Cons.prems by (intro fold_update_nth) (simp_all add: col_els_def)
  have IH: "length (fold (\<lambda>cc d. fold (\<lambda>el d. if row H ! el = cc then d[el := d ! el + r] else d)
                                (col_els H cc) d) ccs ?d1) = length ?d1
       \<and> fold (\<lambda>cc d. fold (\<lambda>el d. if row H ! el = cc then d[el := d ! el + r] else d)
                                (col_els H cc) d) ccs ?d1 ! k
          = (if row H ! k \<in> set ccs \<and> k \<in> set (col_els H (row H ! k)) then ?d1 ! k + r else ?d1 ! k)"
    using Cons.prems len1 by (intro Cons.IH) simp_all
  show ?case
    using IH len1 k1 Cons.prems(1) by auto
qed

lemma regularize_data:
  assumes "k < length (data H)"
  shows "data (regularize H r) ! k
          = (if row H ! k < size2 H \<and> k \<in> set (col_els H (row H ! k)) then data H ! k + r else data H ! k)"
    and "length (data (regularize H r)) = length (data H)"
  using regularize_data_aux[of "[0..<size2 H]" k "data H" H r] assms
  by (simp_all add: regularize_def)

lemma regularize_data_length: "length (data (regularize H r)) = length (data H)"
proof -
  have "length (fold (\<lambda>cc d. fold (\<lambda>el d. if row H ! el = cc then d[el := d ! el + r] else d)
                                (col_els H cc) d) ccs d0) = length d0" for ccs d0
    by (induction ccs arbitrary: d0) (simp_all add: fold_update_length)
  then show ?thesis by (simp add: regularize_def)
qed

lemma regularize_pattern [simp]:
  "size1 (regularize H r) = size1 H" "size2 (regularize H r) = size2 H"
  "colind (regularize H r) = colind H" "row (regularize H r) = row H"
  "col_els (regularize H r) cc = col_els H cc"
  by (simp_all add: regularize_def col_els_def)

lemma entry_regularize:
  assumes wf: "ccs_wf H" and diag: "has_diag H" and i: "i < size2 H" and j: "j < size2 H"
  shows "entry (regularize H r) i j = (if i = j then entry H i i + r else entry H i j)"
proof -
  have wf': "ccs_wf (regularize H r)"
    using wf by (simp add: ccs_wf_def regularize_data_length)
  show ?thesis
  proof (cases rule: entry_cases[OF wf j, of i])
    case (1 el)
    have len: "el < length (data H)" using wf j 1(1) by (rule col_els_bound)
    have "el \<in> set (col_els H i) \<longleftrightarrow> i = j"
      using col_els_disjoint[OF wf j i _ 1(1)] 1(1) by auto
    then have d: "data (regularize H r) ! el = (if i = j then data H ! el + r else data H ! el)"
      using regularize_data(1)[OF len, of r] 1(2) i by simp
    have "entry (regularize H r) (row (regularize H r) ! el) j = data (regularize H r) ! el"
      using wf' j 1(1) by (intro entry_stored) simp_all
    then show ?thesis using d 1 by auto
  next
    case 2
    have ne: "i \<noteq> j"
      using diag j 2(1) by (auto simp: has_diag_alt)
    have "entry (regularize H r) i j = 0"
      using 2(1) by (intro entry_absent) simp
    then show ?thesis using 2(2) ne by simp
  qed
qed

text \<open>The loop of \<^verbatim>\<open>getRegularization\<close> for one column is a sum of \<open>k\<close> rounded
  additions. While the running value is finite each addition has a relative error of at
  most the unit roundoff \<open>u\<close>; a value that is not finite stays so. So a finite result is
  within \<open>((1 + u)\<^sup>k - 1) \<cdot> \<Sum> |v|\<close> of the exact sum.\<close>

lemma mineig_step:
  assumes "is_finite (data H ! el)"
  shows "(if row H ! el = cc then Finite a + data H ! el else Finite a - \<bar>data H ! el\<bar>)
      = dbl (a + (if row H ! el = cc then val (data H ! el) else - \<bar>val (data H ! el)\<bar>))"
  using assms by (cases "data H ! el") (simp_all add: minus_double_def)

lemma mineig_step_nonfinite:
  assumes "is_finite (data H ! el)" "\<not> is_finite a"
  shows "\<not> is_finite (if row H ! el = cc then a + data H ! el else a - \<bar>data H ! el\<bar>)"
  using assms by (cases "data H ! el"; cases a) (simp_all add: minus_double_def)

lemma mineig_fold_nonfinite:
  assumes "\<forall>el \<in> set els. is_finite (data H ! el)" "\<not> is_finite a"
  shows "\<not> is_finite (fold (\<lambda>el mineig. if row H ! el = cc then mineig + data H ! el
                         else mineig - \<bar>data H ! el\<bar>) els a)"
  using assms
proof (induction els arbitrary: a)
  case Nil
  then show ?case by simp
next
  case (Cons e els)
  have "\<not> is_finite (if row H ! e = cc then a + data H ! e else a - \<bar>data H ! e\<bar>)"
    using Cons.prems by (intro mineig_step_nonfinite) simp_all
  then show ?case using Cons.IH Cons.prems(1) by simp
qed

lemma gamma_step:
  fixes u g A S :: real
  assumes u: "0 \<le> u" and g: "0 \<le> g" and A: "0 \<le> A" and S: "0 \<le> S"
    and IH: "e1 \<le> g * (a1 + S)" and a1: "a1 \<le> (1 + u) * A" and e2: "e2 \<le> u * A"
  shows "e1 + e2 \<le> ((1 + u) * (g + 1) - 1) * (A + S)"
proof -
  have "g * (a1 + S) \<le> g * ((1 + u) * A + S)"
    using g a1 by (intro mult_left_mono) simp_all
  then have "e1 + e2 \<le> g * ((1 + u) * A + S) + u * A" using IH e2 by linarith
  also have "\<dots> = (g * (1 + u) + u) * A + g * S" by (simp add: algebra_simps)
  also have "\<dots> \<le> (g * (1 + u) + u) * A + (g * (1 + u) + u) * S"
  proof -
    have "g \<le> g * (1 + u) + u"
      using u g by (simp add: algebra_simps mult_nonneg_nonneg)
    then have "g * S \<le> (g * (1 + u) + u) * S" using S by (intro mult_right_mono) simp_all
    then show ?thesis by linarith
  qed
  also have "\<dots> = ((1 + u) * (g + 1) - 1) * (A + S)" by (simp add: algebra_simps)
  finally show ?thesis .
qed

lemma mineig_fold_error:
  assumes fin: "\<forall>el \<in> set els. is_finite (data H ! el)"
    and res: "fold (\<lambda>el mineig. if row H ! el = cc then mineig + data H ! el
                         else mineig - \<bar>data H ! el\<bar>) els (Finite a) = Finite z"
  shows "\<bar>z - (a + (\<Sum>el\<leftarrow>els. if row H ! el = cc then val (data H ! el) else - \<bar>val (data H ! el)\<bar>))\<bar>
      \<le> ((1 + unit_roundoff) ^ length els - 1) * (\<bar>a\<bar> + (\<Sum>el\<leftarrow>els. \<bar>val (data H ! el)\<bar>))"
  using assms
proof (induction els arbitrary: a)
  case Nil
  then show ?case by simp
next
  case (Cons e els)
  let ?v = "\<lambda>el. if row H ! el = cc then val (data H ! el) else - \<bar>val (data H ! el)\<bar>"
  let ?f = "\<lambda>el mineig. if row H ! el = cc then mineig + data H ! el
                         else mineig - \<bar>data H ! el\<bar>"
  have fe: "is_finite (data H ! e)" and fels: "\<forall>el \<in> set els. is_finite (data H ! el)"
    using Cons.prems(1) by simp_all
  have step: "?f e (Finite a) = dbl (a + ?v e)" using fe by (rule mineig_step)
  have fold: "fold ?f els (dbl (a + ?v e)) = Finite z"
    using Cons.prems(2) step by simp
  define b where "b = dbl (a + ?v e)"
  have "is_finite (fold ?f els b)" using fold by (simp add: b_def)
  then have "is_finite b"
    using mineig_fold_nonfinite[OF fels, of b cc] by blast
  then obtain a1 where "b = Finite a1" by (cases b) simp_all
  then have a1: "dbl (a + ?v e) = Finite a1" by (simp add: b_def)
  have e2: "\<bar>a1 - (a + ?v e)\<bar> \<le> unit_roundoff * \<bar>a + ?v e\<bar>" using a1 by (rule dbl_finite_error)
  have ve: "\<bar>?v e\<bar> = \<bar>val (data H ! e)\<bar>" by simp
  define A where "A = \<bar>a\<bar> + \<bar>val (data H ! e)\<bar>"
  define S where "S = (\<Sum>el\<leftarrow>els. \<bar>val (data H ! el)\<bar>)"
  define T where "T = (\<Sum>el\<leftarrow>els. ?v el)"
  define g where "g = (1 + unit_roundoff) ^ length els - 1"
  have A0: "0 \<le> A" by (simp add: A_def)
  have S0: "0 \<le> S" unfolding S_def by (intro sum_list_nonneg) auto
  have g0: "0 \<le> g" unfolding g_def using unit_roundoff_bounds(1) by (simp add: one_le_power)
  have abs_av: "\<bar>a + ?v e\<bar> \<le> A" unfolding A_def using ve by linarith
  have u0: "0 \<le> unit_roundoff" using unit_roundoff_bounds(1) by simp
  have e2': "\<bar>a1 - (a + ?v e)\<bar> \<le> unit_roundoff * A"
  proof -
    have "unit_roundoff * \<bar>a + ?v e\<bar> \<le> unit_roundoff * A"
      using abs_av u0 by (intro mult_left_mono)
    then show ?thesis using e2 by linarith
  qed
  have a1b: "\<bar>a1\<bar> \<le> (1 + unit_roundoff) * A"
  proof -
    have "\<bar>a1\<bar> \<le> \<bar>a + ?v e\<bar> + \<bar>a1 - (a + ?v e)\<bar>" by linarith
    also have "\<dots> \<le> A + unit_roundoff * A" using abs_av e2' by linarith
    finally show ?thesis by (simp add: algebra_simps)
  qed
  have IH: "\<bar>z - (a1 + T)\<bar> \<le> g * (\<bar>a1\<bar> + S)"
    unfolding T_def S_def g_def using Cons.IH[OF fels] fold a1 by simp
  have tri: "\<bar>z - (a + ?v e + T)\<bar> \<le> \<bar>z - (a1 + T)\<bar> + \<bar>a1 - (a + ?v e)\<bar>" by linarith
  have "\<bar>z - (a1 + T)\<bar> + \<bar>a1 - (a + ?v e)\<bar> \<le> ((1 + unit_roundoff) * (g + 1) - 1) * (A + S)"
    using u0 g0 A0 S0 IH a1b e2' by (rule gamma_step)
  then have "\<bar>z - (a + ?v e + T)\<bar> \<le> ((1 + unit_roundoff) * (g + 1) - 1) * (A + S)"
    using tri by linarith
  moreover have "(1 + unit_roundoff) * (g + 1) - 1 = (1 + unit_roundoff) ^ length (e # els) - 1"
    by (simp add: g_def)
  moreover have "a + (\<Sum>el\<leftarrow>e # els. ?v el) = a + ?v e + T" by (simp add: T_def)
  moreover have "\<bar>a\<bar> + (\<Sum>el\<leftarrow>e # els. \<bar>val (data H ! el)\<bar>) = A + S" by (simp add: A_def S_def)
  ultimately show ?case by (simp only:)
qed

text \<open>The exact sums over a column in terms of the entries; for a symmetric matrix
  they are the Gershgorin bound and the absolute sum of the row. The shift is finite,
  not negative, and covers every computed \<^verbatim>\<open>mineig\<close>.\<close>

lemma filter_sum_entry:
  fixes f :: "double \<Rightarrow> real"
  assumes wf: "ccs_wf H" and j: "j < size2 H" and f0: "f 0 = 0"
  shows "(\<Sum>el\<leftarrow>filter (\<lambda>el. row H ! el = k) (col_els H j). f (data H ! el)) = f (entry H k j)"
proof -
  let ?els = "filter (\<lambda>el. row H ! el = k) (col_els H j)"
  have le1: "length ?els \<le> 1"
    using col_rows_distinct[OF wf j] by (rule filter_le_one)
  show ?thesis
  proof (cases ?els)
    case Nil
    then show ?thesis using f0 by (simp add: entry_def)
  next
    case (Cons e es)
    with le1 have "es = []" by simp
    with Cons show ?thesis by (simp add: entry_def)
  qed
qed

lemma sum_list_by_row:
  fixes g :: "nat \<Rightarrow> real" and f :: "nat \<Rightarrow> nat"
  assumes "\<forall>el \<in> set els. f el < n"
  shows "(\<Sum>el\<leftarrow>els. g el) = (\<Sum>k<n. \<Sum>el\<leftarrow>filter (\<lambda>el. f el = k) els. g el)"
  using assms
proof (induction els)
  case Nil
  show ?case by simp
next
  case (Cons e els)
  have split: "(\<Sum>k<n. \<Sum>el\<leftarrow>filter (\<lambda>el. f el = k) (e # els). g el)
      = (\<Sum>k<n. (if f e = k then g e else 0) + (\<Sum>el\<leftarrow>filter (\<lambda>el. f el = k) els. g el))"
    by (intro sum.cong) simp_all
  have "f e \<in> {..<n}" using Cons.prems by simp
  then have delta: "(\<Sum>k<n. if f e = k then g e else 0) = g e"
    using sum.delta'[of "{..<n}" "f e" "\<lambda>k. g e"] by simp
  have IH: "(\<Sum>el\<leftarrow>els. g el) = (\<Sum>k<n. \<Sum>el\<leftarrow>filter (\<lambda>el. f el = k) els. g el)"
    using Cons by simp
  show ?case
    unfolding split sum.distrib delta using IH by simp
qed

lemma col_abs_sum:
  assumes wf: "ccs_wf H" and i: "i < size2 H"
  shows "(\<Sum>el\<leftarrow>col_els H i. \<bar>val (data H ! el)\<bar>) = (\<Sum>k<size1 H. \<bar>val (entry H k i)\<bar>)"
proof -
  have "(\<Sum>el\<leftarrow>col_els H i. \<bar>val (data H ! el)\<bar>)
      = (\<Sum>k<size1 H. \<Sum>el\<leftarrow>filter (\<lambda>el. row H ! el = k) (col_els H i). \<bar>val (data H ! el)\<bar>)"
    using col_rows_bound[OF wf i] by (rule sum_list_by_row)
  also have "\<dots> = (\<Sum>k<size1 H. \<bar>val (entry H k i)\<bar>)"
    using filter_sum_entry[OF wf i, of "\<lambda>d. \<bar>val d\<bar>"] by (simp add: zero_double_def)
  finally show ?thesis .
qed

lemma col_signed_sum:
  assumes wf: "ccs_wf H" and i: "i < size2 H" and i1: "i < size1 H"
  shows "(\<Sum>el\<leftarrow>col_els H i. if row H ! el = i then val (data H ! el) else - \<bar>val (data H ! el)\<bar>)
      = val (entry H i i) - (\<Sum>k \<in> {..<size1 H} - {i}. \<bar>val (entry H k i)\<bar>)"
proof -
  let ?g = "\<lambda>el. if row H ! el = i then val (data H ! el) else - \<bar>val (data H ! el)\<bar>"
  have part: "(\<Sum>el\<leftarrow>filter (\<lambda>el. row H ! el = k) (col_els H i). ?g el)
      = (if k = i then val (entry H i i) else - \<bar>val (entry H k i)\<bar>)" for k
  proof (cases "k = i")
    case True
    have "(\<Sum>el\<leftarrow>filter (\<lambda>el. row H ! el = i) (col_els H i). ?g el)
        = (\<Sum>el\<leftarrow>filter (\<lambda>el. row H ! el = i) (col_els H i). val (data H ! el))"
      by (intro arg_cong[where f = sum_list] map_cong) simp_all
    also have "\<dots> = val (entry H i i)"
      using filter_sum_entry[OF wf i, of val i] by (simp add: zero_double_def)
    finally show ?thesis using True by simp
  next
    case False
    have "(\<Sum>el\<leftarrow>filter (\<lambda>el. row H ! el = k) (col_els H i). ?g el)
        = (\<Sum>el\<leftarrow>filter (\<lambda>el. row H ! el = k) (col_els H i). - \<bar>val (data H ! el)\<bar>)"
      using False by (intro arg_cong[where f = sum_list] map_cong) simp_all
    also have "\<dots> = - \<bar>val (entry H k i)\<bar>"
      using filter_sum_entry[OF wf i, of "\<lambda>d. - \<bar>val d\<bar>" k] by (simp add: zero_double_def)
    finally show ?thesis using False by simp
  qed
  have "(\<Sum>el\<leftarrow>col_els H i. ?g el)
      = (\<Sum>k<size1 H. \<Sum>el\<leftarrow>filter (\<lambda>el. row H ! el = k) (col_els H i). ?g el)"
    using col_rows_bound[OF wf i] by (rule sum_list_by_row)
  also have "\<dots> = (\<Sum>k<size1 H. if k = i then val (entry H i i) else - \<bar>val (entry H k i)\<bar>)"
    by (simp only: part)
  also have "\<dots> = val (entry H i i) + (\<Sum>k \<in> {..<size1 H} - {i}. - \<bar>val (entry H k i)\<bar>)"
  proof -
    have "(\<Sum>k<size1 H. if k = i then val (entry H i i) else - \<bar>val (entry H k i)\<bar>)
        = val (entry H i i) + (\<Sum>k \<in> {..<size1 H} - {i}. if k = i then val (entry H i i) else - \<bar>val (entry H k i)\<bar>)"
      using i1 by (subst sum.remove[of _ i]) simp_all
    moreover have "(\<Sum>k \<in> {..<size1 H} - {i}. if k = i then val (entry H i i) else - \<bar>val (entry H k i)\<bar>)
        = (\<Sum>k \<in> {..<size1 H} - {i}. - \<bar>val (entry H k i)\<bar>)"
      by (intro sum.cong) auto
    ultimately show ?thesis by simp
  qed
  also have "\<dots> = val (entry H i i) - (\<Sum>k \<in> {..<size1 H} - {i}. \<bar>val (entry H k i)\<bar>)"
    by (simp add: sum_negf)
  finally show ?thesis .
qed

lemma mineig_error:
  assumes wf: "ccs_wf H" and sym: "symmetric H" and fin: "finite_matrix H"
    and i: "i < size2 H" and mf: "is_finite (mineig H i)"
  shows "\<bar>val (mineig H i) - row_bound H i\<bar>
      \<le> ((1 + unit_roundoff) ^ length (col_els H i) - 1) * abs_row_sum H i"
proof -
  have n: "size1 H = size2 H" using sym by (simp add: symmetric_alt)
  have symm: "entry H k i = entry H i k" if "k < size2 H" for k
    using sym i that by (simp add: symmetric_alt)
  obtain z where z: "mineig H i = Finite z" using mf by (cases "mineig H i") simp_all
  then have res: "fold (\<lambda>el mineig. if row H ! el = i then mineig + data H ! el
                         else mineig - \<bar>data H ! el\<bar>) (col_els H i) (Finite 0) = Finite z"
    by (simp add: mineig_def zero_double_def)
  have "\<bar>z - (0 + (\<Sum>el\<leftarrow>col_els H i. if row H ! el = i then val (data H ! el) else - \<bar>val (data H ! el)\<bar>))\<bar>
      \<le> ((1 + unit_roundoff) ^ length (col_els H i) - 1)
           * (\<bar>0\<bar> + (\<Sum>el\<leftarrow>col_els H i. \<bar>val (data H ! el)\<bar>))"
    using col_finite[OF wf fin i] res by (rule mineig_fold_error)
  moreover have "(\<Sum>el\<leftarrow>col_els H i. if row H ! el = i then val (data H ! el) else - \<bar>val (data H ! el)\<bar>)
      = row_bound H i"
  proof -
    have "(\<Sum>k \<in> {..<size2 H} - {i}. \<bar>val (entry H k i)\<bar>) = (\<Sum>k \<in> {..<size2 H} - {i}. \<bar>val (entry H i k)\<bar>)"
      using symm by (intro sum.cong) simp_all
    then show ?thesis
      using col_signed_sum[OF wf i] i n by (simp add: row_bound_def)
  qed
  moreover have "(\<Sum>el\<leftarrow>col_els H i. \<bar>val (data H ! el)\<bar>) = abs_row_sum H i"
  proof -
    have "(\<Sum>k<size2 H. \<bar>val (entry H k i)\<bar>) = (\<Sum>k<size2 H. \<bar>val (entry H i k)\<bar>)"
      using symm by (intro sum.cong) simp_all
    then show ?thesis using col_abs_sum[OF wf i] n by (simp add: abs_row_sum_def)
  qed
  ultimately show ?thesis using z by simp
qed

lemma fmin_finite: "fmin (Finite a) (Finite b) = Finite (min a b)"
  by (simp add: fmin_def min_def)

lemma fmin_fold:
  assumes "\<forall>cc \<in> set ccs. is_finite (f cc)"
  shows "\<exists>r. fold (\<lambda>cc reg_param. fmin reg_param (f cc)) ccs (Finite r0) = Finite r \<and> r \<le> r0
          \<and> (\<forall>cc \<in> set ccs. r \<le> val (f cc))"
  using assms
proof (induction ccs arbitrary: r0)
  case Nil
  then show ?case by simp
next
  case (Cons c ccs)
  obtain b where b: "f c = Finite b" using Cons.prems by (cases "f c") simp_all
  obtain r where r: "fold (\<lambda>cc reg_param. fmin reg_param (f cc)) ccs (Finite (min r0 b)) = Finite r"
      "r \<le> min r0 b" "\<forall>cc \<in> set ccs. r \<le> val (f cc)"
    using Cons.IH[of "min r0 b"] Cons.prems by auto
  show ?case using r b by (auto simp: fmin_finite)
qed

lemma getRegularization_finite:
  assumes "\<forall>cc < size2 H. is_finite (mineig H cc)"
  shows "\<exists>rho. getRegularization H = Finite rho \<and> 0 \<le> rho \<and> (\<forall>cc < size2 H. 0 \<le> val (mineig H cc) + rho)"
proof -
  obtain r where r: "fold (\<lambda>cc reg_param. fmin reg_param (mineig H cc)) [0..<size2 H] (Finite 0) = Finite r"
      "r \<le> 0" "\<forall>cc \<in> set [0..<size2 H]. r \<le> val (mineig H cc)"
    using fmin_fold[of "[0..<size2 H]" "mineig H" 0] assms by auto
  have "getRegularization H = Finite (- r)"
    using r(1) by (simp add: getRegularization_def zero_double_def)
  then show ?thesis using r(2,3) by auto
qed

lemma row_bound_shifted:
  assumes wf: "ccs_wf H" and diag: "has_diag H" and sym: "symmetric H" and fin: "finite_matrix H"
    and mf: "\<forall>cc < size2 H. is_finite (mineig H cc)"
    and fin': "finite_matrix (regularize H (getRegularization H))"
    and i: "i < size2 H"
  shows "- rounding_bound H i \<le> row_bound (regularize H (getRegularization H)) i"
proof -
  let ?R = "regularize H (getRegularization H)"
  define u where "u = unit_roundoff"
  define G where "G = ((1 + u) ^ length (col_els H i) - 1) * abs_row_sum H i"
  obtain rho where rho: "getRegularization H = Finite rho" "0 \<le> rho"
      "\<forall>cc < size2 H. 0 \<le> val (mineig H cc) + rho"
    using getRegularization_finite[OF mf] by blast
  obtain d where d: "entry H i i = Finite d"
    using entry_finite[OF wf fin i, of i] by (cases "entry H i i") simp_all
  have wf': "ccs_wf ?R" using wf by (simp add: ccs_wf_def regularize_data_length)
  have "is_finite (entry ?R i i)"
    using wf' fin' i by (intro entry_finite) simp_all
  moreover have eii: "entry ?R i i = dbl (d + rho)"
    using entry_regularize[OF wf diag i i] d rho(1) by simp
  ultimately obtain d' where d': "dbl (d + rho) = Finite d'"
    by (cases "dbl (d + rho)") simp_all
  have err: "\<bar>d' - (d + rho)\<bar> \<le> u * \<bar>d + rho\<bar>"
    unfolding u_def using d' by (rule dbl_finite_error)
  have off: "entry ?R i j = entry H i j" if "j < size2 H" "j \<noteq> i" for j
    using entry_regularize[OF wf diag i that(1)] that(2) by simp
  have "(\<Sum>j \<in> {..<size2 H} - {i}. \<bar>val (entry ?R i j)\<bar>) = (\<Sum>j \<in> {..<size2 H} - {i}. \<bar>val (entry H i j)\<bar>)"
    using off by (intro sum.cong) simp_all
  then have rb: "row_bound ?R i = row_bound H i + (d' - d)"
    using eii d' d by (simp add: row_bound_def)
  have me: "\<bar>val (mineig H i) - row_bound H i\<bar> \<le> G"
    unfolding G_def u_def using wf sym fin i mf by (intro mineig_error) simp_all
  have cover: "0 \<le> val (mineig H i) + rho" using rho(3) i by simp
  have "- (G + u * \<bar>d + rho\<bar>) \<le> row_bound ?R i"
    using rb me cover err by linarith
  moreover have "rounding_bound H i = G + u * \<bar>d + rho\<bar>"
    by (simp add: rounding_bound_def G_def u_def d rho(1))
  ultimately show ?thesis by simp
qed

lemma row_bound_unshifted:
  assumes wf: "ccs_wf H" and sym: "symmetric H" and fin: "finite_matrix H"
    and mf: "\<forall>cc < size2 H. is_finite (mineig H cc)"
    and zero: "\<not> 0 < getRegularization H"
    and i: "i < size2 H"
  shows "- rounding_bound H i \<le> row_bound H i"
proof -
  define G where "G = ((1 + unit_roundoff) ^ length (col_els H i) - 1) * abs_row_sum H i"
  obtain rho where rho: "getRegularization H = Finite rho" "0 \<le> rho"
      "\<forall>cc < size2 H. 0 \<le> val (mineig H cc) + rho"
    using getRegularization_finite[OF mf] by blast
  have "rho = 0" using zero rho(1,2) by (simp add: zero_double_def)
  then have cover: "0 \<le> val (mineig H i)" using rho(3) i by simp
  have me: "\<bar>val (mineig H i) - row_bound H i\<bar> \<le> G"
    unfolding G_def using wf sym fin i mf by (intro mineig_error) simp_all
  have "G \<le> rounding_bound H i"
    using unit_roundoff_bounds(1) by (simp add: rounding_bound_def G_def)
  then show ?thesis using me cover by linarith
qed

text \<open>
  Claim C7, as the code has it. For every symmetric matrix of finite doubles in a
  well-formed pattern that holds the diagonal (the pattern of the Hessian, to which
  \<^verbatim>\<open>init\<close> adds the diagonal), when no sum overflows: the value \<^verbatim>\<open>mineig\<close> that the
  regulariser computes for column \<open>i\<close> is the Gershgorin bound
  \<open>H[i,i] - \<Sum>_{j \<noteq> i} |H[i,j]|\<close> of row \<open>i\<close> up to \<open>((1 + u)\<^sup>k - 1) \<cdot> \<Sum>\<^sub>j |H[i,j]|\<close>, for the
  unit roundoff \<open>u = 2\<^sup>-\<^sup>5\<^sup>3\<close> and the number \<open>k\<close> of stored entries of the column; after the
  shift is added to the diagonal, every Gershgorin row bound is at least
  \<open>- (((1 + u)\<^sup>k - 1) \<cdot> \<Sum>\<^sub>j |H[i,j]| + u \<cdot> |H[i,i] + reg|)\<close>; and this holds of the matrix that
  \<^verbatim>\<open>eval_h\<close> returns when regularisation is on (it skips the shift when \<open>reg\<close> is zero).
\<close>

theorem regularized_gershgorin_bounds_up_to_rounding:
  assumes "ccs_wf H" and "has_diag H" and "symmetric H" and "finite_matrix H"
    and "list_all (\<lambda>cc. is_finite (mineig H cc)) [0..<size2 H]"
    and "finite_matrix (regularize H (getRegularization H))"
  shows "(\<forall>i < size2 H. \<bar>val (mineig H i) - row_bound H i\<bar>
            \<le> ((1 + unit_roundoff) ^ length (col_els H i) - 1) * abs_row_sum H i)
    \<and> (\<forall>i < size2 H. - rounding_bound H i \<le> row_bound (regularize H (getRegularization H)) i)
    \<and> (regularize_flag m \<and> hessLag m xv sig lam = Inr H \<and> eval_h m xv lam sig reg0 = Inr (H', r)
         \<longrightarrow> r = getRegularization H \<and> size2 H' = size2 H
             \<and> (\<forall>i < size2 H. - rounding_bound H i \<le> row_bound H' i))"
proof -
  have mf: "\<forall>cc < size2 H. is_finite (mineig H cc)"
    using assms(5) by (simp add: list_all_iff)
  have A: "\<bar>val (mineig H i) - row_bound H i\<bar>
            \<le> ((1 + unit_roundoff) ^ length (col_els H i) - 1) * abs_row_sum H i" if "i < size2 H" for i
    using assms(1,3,4) that mf by (intro mineig_error) simp_all
  have B: "- rounding_bound H i \<le> row_bound (regularize H (getRegularization H)) i" if "i < size2 H" for i
    using assms(1,2,3,4) mf assms(6) that by (rule row_bound_shifted)
  have C: "r = getRegularization H \<and> size2 H' = size2 H
       \<and> (\<forall>i < size2 H. - rounding_bound H i \<le> row_bound H' i)"
    if "regularize_flag m \<and> hessLag m xv sig lam = Inr H \<and> eval_h m xv lam sig reg0 = Inr (H', r)"
  proof (cases "0 < getRegularization H")
    case True
    with that have "H' = regularize H (getRegularization H)" "r = getRegularization H"
      by (auto simp: eval_h_def Let_def)
    then show ?thesis using B by simp
  next
    case False
    with that have H': "H' = H" "r = getRegularization H"
      by (auto simp: eval_h_def Let_def)
    have "- rounding_bound H i \<le> row_bound H i" if "i < size2 H" for i
      using assms(1,3,4) mf False that by (rule row_bound_unshifted)
    then show ?thesis using H' by simp
  qed
  show ?thesis using A B C by blast
qed

text \<open>The regulariser at the matrix with rows \<open>(-0.5, 0.1)\<close> and \<open>(0.1, -0.5)\<close>: the
  double \<^verbatim>\<open>0.1\<close> is \<open>3602879701896397 / 2\<^sup>5\<^sup>5\<close>, the sum \<open>0.5 + 0.1\<close> is rounded down to
  \<open>5404319552844595 / 2\<^sup>5\<^sup>3\<close>, which is the shift; the shifted diagonal
  \<open>900719925474099 / 2\<^sup>5\<^sup>3\<close> is exact, and smaller than the double \<^verbatim>\<open>0.1\<close> by \<open>2\<^sup>-\<^sup>5\<^sup>5\<close>.\<close>

lemma dbl_tenth:
  "dbl (1 / 10) = Finite (3602879701896397 / 36028797018963968)"
  "dbl (- (1 / 2)) = Finite (- (1 / 2))"
  "dbl (- (3602879701896397 / 36028797018963968)) = Finite (- (3602879701896397 / 36028797018963968))"
  "dbl (- (21617278211378381 / 36028797018963968)) = Finite (- (5404319552844595 / 9007199254740992))"
  "dbl (900719925474099 / 9007199254740992) = Finite (900719925474099 / 9007199254740992)"
  by (simp_all add: dbl_def rnd_def expo.simps pow2_def round_even_def Let_def)

lemma upt_2: "[0..<2] = [0, 1]"
  by (simp add: eval_nat_numeral)

lemma diff_sets: "{..<2::nat} - {0} = {1}" "{..<2::nat} - {1} = {0}" "{..<2::nat} - {Suc 0} = {0}"
  by auto

lemma ex_tenth_cols:
  "col_els ex_tenth 0 = [0, 1]" "col_els ex_tenth 1 = [2, 3]" "col_els ex_tenth (Suc 0) = [2, 3]"
  by (simp_all add: col_els_def ex_tenth_def eval_nat_numeral)

lemma ex_tenth_sel:
  "size1 ex_tenth = 2" "size2 ex_tenth = 2" "row ex_tenth = [0, 1, 0, 1]"
  "data ex_tenth = [Finite (- (1 / 2)), Finite (3602879701896397 / 36028797018963968),
                    Finite (3602879701896397 / 36028797018963968), Finite (- (1 / 2))]"
  "colind ex_tenth = [0, 2, 4]"
  by (simp_all add: ex_tenth_def dbl_tenth)

lemma ex_tenth_wf:
  "ccs_wf ex_tenth" "has_diag ex_tenth" "symmetric ex_tenth" "finite_matrix ex_tenth"
  by (simp_all add: ccs_wf_def has_diag_def symmetric_def finite_matrix_def entry_def ex_tenth_sel
      upt_2 ex_tenth_cols)

lemma ex_tenth_mineig:
  "mineig ex_tenth 0 = Finite (- (5404319552844595 / 9007199254740992))"
  "mineig ex_tenth 1 = Finite (- (5404319552844595 / 9007199254740992))"
  "mineig ex_tenth (Suc 0) = Finite (- (5404319552844595 / 9007199254740992))"
  by (simp_all add: mineig_def ex_tenth_sel ex_tenth_cols zero_double_def minus_double_def dbl_tenth)

lemma ex_tenth_reg: "getRegularization ex_tenth = Finite (5404319552844595 / 9007199254740992)"
  by (simp add: getRegularization_def ex_tenth_sel upt_2 ex_tenth_mineig fmin_def zero_double_def)

lemma ex_tenth_shifted:
  "data (regularize ex_tenth (Finite (5404319552844595 / 9007199254740992))) =
     [Finite (900719925474099 / 9007199254740992), Finite (3602879701896397 / 36028797018963968),
      Finite (3602879701896397 / 36028797018963968), Finite (900719925474099 / 9007199254740992)]"
  by (simp add: regularize_def ex_tenth_sel upt_2 ex_tenth_cols dbl_tenth)

lemma ex_tenth_row_bound:
  "row_bound (regularize ex_tenth (Finite (5404319552844595 / 9007199254740992))) 0 = - (1 / 36028797018963968)"
  "row_bound (regularize ex_tenth (Finite (5404319552844595 / 9007199254740992))) 1 = - (1 / 36028797018963968)"
  "row_bound (regularize ex_tenth (Finite (5404319552844595 / 9007199254740992))) (Suc 0) = - (1 / 36028797018963968)"
  by (simp_all add: row_bound_def entry_def ex_tenth_shifted ex_tenth_sel ex_tenth_cols diff_sets)

text \<open>The regulariser at the indefinite matrix with rows \<open>(1, -3)\<close> and \<open>(-3, 2)\<close>, where
  no addition rounds: the column values are \<open>-2\<close> and \<open>-1\<close>, the shift is 2, the shifted
  bounds are 0 and 1.\<close>

lemma ex_indefinite_cols:
  "col_els ex_indefinite 0 = [0, 1]" "col_els ex_indefinite 1 = [2, 3]"
  "col_els ex_indefinite (Suc 0) = [2, 3]"
  by (simp_all add: col_els_def ex_indefinite_def eval_nat_numeral)

lemma ex_indefinite_sel:
  "size1 ex_indefinite = 2" "size2 ex_indefinite = 2" "row ex_indefinite = [0, 1, 0, 1]"
  "data ex_indefinite = [Finite 1, Finite (- 3), Finite (- 3), Finite 2]" "colind ex_indefinite = [0, 2, 4]"
  by (simp_all add: ex_indefinite_def)

lemma ex_indefinite_wf:
  "ccs_wf ex_indefinite" "has_diag ex_indefinite" "symmetric ex_indefinite" "finite_matrix ex_indefinite"
  by (simp_all add: ccs_wf_def has_diag_def symmetric_def finite_matrix_def entry_def
      ex_indefinite_sel upt_2 ex_indefinite_cols)

lemma ex_indefinite_mineig:
  "mineig ex_indefinite 0 = Finite (- 2)" "mineig ex_indefinite 1 = Finite (- 1)"
  "mineig ex_indefinite (Suc 0) = Finite (- 1)"
  by (simp_all add: mineig_def ex_indefinite_sel ex_indefinite_cols zero_double_def minus_double_def
      dbl_small)

lemma ex_indefinite_reg: "getRegularization ex_indefinite = Finite 2"
  by (simp add: getRegularization_def ex_indefinite_sel upt_2 ex_indefinite_mineig fmin_def
      zero_double_def)

lemma ex_indefinite_shifted:
  "data (regularize ex_indefinite (Finite 2)) = [Finite 3, Finite (- 3), Finite (- 3), Finite 4]"
  by (simp add: regularize_def ex_indefinite_sel upt_2 ex_indefinite_cols dbl_small)

lemma ex_indefinite_row_bound:
  "row_bound (regularize ex_indefinite (Finite 2)) 0 = 0"
  "row_bound (regularize ex_indefinite (Finite 2)) 1 = 1"
  "row_bound (regularize ex_indefinite (Finite 2)) (Suc 0) = 1"
  by (simp_all add: row_bound_def entry_def ex_indefinite_shifted ex_indefinite_sel
      ex_indefinite_cols diff_sets)

text \<open>The theorem at both matrices.\<close>

theorem regularized_gershgorin_bounds_up_to_rounding_witness:
  "ccs_wf ex_indefinite \<and> has_diag ex_indefinite \<and> symmetric ex_indefinite
   \<and> finite_matrix ex_indefinite
   \<and> mineig ex_indefinite 0 = Finite (- 2) \<and> mineig ex_indefinite 1 = Finite (- 1)
   \<and> getRegularization ex_indefinite = Finite 2
   \<and> finite_matrix (regularize ex_indefinite (getRegularization ex_indefinite))
   \<and> - rounding_bound ex_indefinite 0
        \<le> row_bound (regularize ex_indefinite (getRegularization ex_indefinite)) 0
   \<and> - rounding_bound ex_indefinite 1
        \<le> row_bound (regularize ex_indefinite (getRegularization ex_indefinite)) 1
   \<and> row_bound (regularize ex_indefinite (getRegularization ex_indefinite)) 0 = 0
   \<and> regularize_flag ex_solver_regularize
   \<and> eval_h ex_solver_regularize [0] [] 1 0 = Inr (regularize ex_indefinite (Finite 2), Finite 2)
   \<and> ccs_wf ex_tenth \<and> has_diag ex_tenth \<and> symmetric ex_tenth \<and> finite_matrix ex_tenth
   \<and> - rounding_bound ex_tenth 0 \<le> row_bound (regularize ex_tenth (getRegularization ex_tenth)) 0
   \<and> row_bound (regularize ex_tenth (getRegularization ex_tenth)) 0 = - (1 / 36028797018963968)"
proof -
  have mf: "list_all (\<lambda>cc. is_finite (mineig ex_indefinite cc)) [0..<size2 ex_indefinite]"
    by (simp add: ex_indefinite_sel upt_2 ex_indefinite_mineig)
  have ff: "finite_matrix (regularize ex_indefinite (getRegularization ex_indefinite))"
    by (simp add: finite_matrix_def ex_indefinite_reg ex_indefinite_shifted)
  have eh: "eval_h ex_solver_regularize [0] [] 1 0 = Inr (regularize ex_indefinite (Finite 2), Finite 2)"
    by (simp add: eval_h_def Let_def ex_solver_regularize_def ex_indefinite_reg zero_double_def)
  have fl: "regularize_flag ex_solver_regularize" by (simp add: ex_solver_regularize_def)
  note inst = regularized_gershgorin_bounds_up_to_rounding[OF ex_indefinite_wf mf ff]
  have b: "- rounding_bound ex_indefinite 0
        \<le> row_bound (regularize ex_indefinite (getRegularization ex_indefinite)) 0"
    "- rounding_bound ex_indefinite 1
        \<le> row_bound (regularize ex_indefinite (getRegularization ex_indefinite)) 1"
    using inst by (simp_all add: ex_indefinite_sel)
  have mft: "list_all (\<lambda>cc. is_finite (mineig ex_tenth cc)) [0..<size2 ex_tenth]"
    by (simp add: ex_tenth_sel upt_2 ex_tenth_mineig)
  have fft: "finite_matrix (regularize ex_tenth (getRegularization ex_tenth))"
    by (simp add: finite_matrix_def ex_tenth_reg ex_tenth_shifted)
  note instt = regularized_gershgorin_bounds_up_to_rounding[OF ex_tenth_wf mft fft]
  have bt: "- rounding_bound ex_tenth 0 \<le> row_bound (regularize ex_tenth (getRegularization ex_tenth)) 0"
    using instt by (simp add: ex_tenth_sel)
  show ?thesis
    using ex_indefinite_wf ex_tenth_wf ex_indefinite_mineig ex_indefinite_reg ff b eh fl bt
      ex_indefinite_row_bound ex_tenth_row_bound ex_tenth_reg
    by simp
qed

text \<open>The claim as stated fails at the second matrix: after the shift both Gershgorin
  row bounds are \<open>- 2\<^sup>-\<^sup>5\<^sup>5\<close>, and this is the matrix that \<^verbatim>\<open>eval_h\<close> returns.\<close>

theorem regularized_gershgorin_bound_negative_counterexample:
  "ccs_wf ex_tenth \<and> has_diag ex_tenth \<and> symmetric ex_tenth \<and> finite_matrix ex_tenth
   \<and> getRegularization ex_tenth = Finite (5404319552844595 / 9007199254740992)
   \<and> row_bound (regularize ex_tenth (getRegularization ex_tenth)) 0 = - (1 / 2 ^ 55)
   \<and> row_bound (regularize ex_tenth (getRegularization ex_tenth)) 1 = - (1 / 2 ^ 55)
   \<and> row_bound (regularize ex_tenth (getRegularization ex_tenth)) 0 < 0
   \<and> regularize_flag ex_solver_tenth
   \<and> eval_h ex_solver_tenth [0] [] 1 0
       = Inr (regularize ex_tenth (getRegularization ex_tenth), getRegularization ex_tenth)"
proof -
  have eh: "eval_h ex_solver_tenth [0] [] 1 0
       = Inr (regularize ex_tenth (getRegularization ex_tenth), getRegularization ex_tenth)"
    by (simp add: eval_h_def Let_def ex_solver_tenth_def ex_tenth_reg zero_double_def)
  have fl: "regularize_flag ex_solver_tenth" by (simp add: ex_solver_tenth_def)
  show ?thesis
    using ex_tenth_wf eh fl by (simp add: ex_tenth_reg ex_tenth_row_bound)
qed

text \<open>The diagonal must be in the pattern: \<^verbatim>\<open>regularize\<close> changes stored values only,
  so a symmetric matrix stored without its diagonal keeps its negative bounds.\<close>

lemma ex_offdiag_cols:
  "col_els ex_offdiag 0 = [0]" "col_els ex_offdiag 1 = [1]" "col_els ex_offdiag (Suc 0) = [1]"
  by (simp_all add: col_els_def ex_offdiag_def eval_nat_numeral)

lemma ex_offdiag_sel:
  "size1 ex_offdiag = 2" "size2 ex_offdiag = 2" "row ex_offdiag = [1, 0]"
  "data ex_offdiag = [Finite 1, Finite 1]" "colind ex_offdiag = [0, 1, 2]"
  by (simp_all add: ex_offdiag_def)

lemma ex_offdiag_not_repaired:
  "ccs_wf ex_offdiag \<and> symmetric ex_offdiag \<and> \<not> has_diag ex_offdiag
   \<and> getRegularization ex_offdiag = Finite 1
   \<and> row_bound (regularize ex_offdiag (getRegularization ex_offdiag)) 0 = -1"
proof -
  have r: "getRegularization ex_offdiag = Finite 1"
    by (simp add: getRegularization_def mineig_def ex_offdiag_sel upt_2 ex_offdiag_cols fmin_def
        zero_double_def minus_double_def dbl_small)
  have d: "data (regularize ex_offdiag (Finite 1)) = data ex_offdiag"
    by (simp add: regularize_def ex_offdiag_sel upt_2 ex_offdiag_cols)
  have "entry (regularize ex_offdiag (Finite 1)) i j = entry ex_offdiag i j" for i j
    unfolding entry_def d by simp
  then have "row_bound (regularize ex_offdiag (Finite 1)) 0 = row_bound ex_offdiag 0"
    by (simp add: row_bound_def)
  moreover have "row_bound ex_offdiag 0 = -1"
    by (simp add: row_bound_def entry_def ex_offdiag_sel ex_offdiag_cols diff_sets zero_double_def)
  moreover have "ccs_wf ex_offdiag" "symmetric ex_offdiag" "\<not> has_diag ex_offdiag"
    by (simp_all add: ccs_wf_def has_diag_def symmetric_def entry_def ex_offdiag_sel upt_2
        ex_offdiag_cols)
  ultimately show ?thesis using r by simp
qed

end
